theory Spec2Isabelle
  imports Main "HOL-Library.AList" "HOL-Library.Sublist"
begin

section \<open>Python strings\<close>

text \<open>
  A Python \<open>str\<close> is a sequence of Unicode code points, so a string of the program is a
  list of code points (natural numbers). The pattern of the phase header holds code
  points far beyond one byte, and \<open>re\<close> and \<open>str.strip\<close> work on code points, not on
  bytes. \<open>u\<close> reads an ASCII literal as such a string.
\<close>

type_synonym pystr = "nat list"

definition u :: "string \<Rightarrow> pystr" where
  "u s = map of_char s"

definition nl :: pystr where
  "nl = [10]"

text \<open>
  \<open>str.isspace\<close>, the test behind \<open>str.strip()\<close> and behind \<open>\s\<close> of a \<open>str\<close> pattern:
  the table of CPython's Unicode database (a table of the interpreter, not of this
  repository).
\<close>

definition is_space :: "nat \<Rightarrow> bool" where
  "is_space c = (c \<in> set [0x9, 0xA, 0xB, 0xC, 0xD, 0x1C, 0x1D, 0x1E, 0x1F, 0x20, 0x85, 0xA0,
     0x1680, 0x2000, 0x2001, 0x2002, 0x2003, 0x2004, 0x2005, 0x2006, 0x2007, 0x2008, 0x2009,
     0x200A, 0x2028, 0x2029, 0x202F, 0x205F, 0x3000])"

text \<open>
  \<open>\d\<close> of a \<open>str\<close> pattern: the decimal digits of Unicode (category Nd), as ranges of
  code points; the table of CPython 3.11 (Unicode 14.0), again the interpreter's.
\<close>

definition nd_ranges :: "(nat \<times> nat) list" where
  "nd_ranges = [(48, 57), (1632, 1641), (1776, 1785), (1984, 1993), (2406, 2415),
     (2534, 2543), (2662, 2671), (2790, 2799), (2918, 2927), (3046, 3055), (3174, 3183),
     (3302, 3311), (3430, 3439), (3558, 3567), (3664, 3673), (3792, 3801), (3872, 3881),
     (4160, 4169), (4240, 4249), (6112, 6121), (6160, 6169), (6470, 6479), (6608, 6617),
     (6784, 6793), (6800, 6809), (6992, 7001), (7088, 7097), (7232, 7241), (7248, 7257),
     (42528, 42537), (43216, 43225), (43264, 43273), (43472, 43481), (43504, 43513),
     (43600, 43609), (44016, 44025), (65296, 65305), (66720, 66729), (68912, 68921),
     (69734, 69743), (69872, 69881), (69942, 69951), (70096, 70105), (70384, 70393),
     (70736, 70745), (70864, 70873), (71248, 71257), (71360, 71369), (71472, 71481),
     (71904, 71913), (72016, 72025), (72784, 72793), (73040, 73049), (73120, 73129),
     (92768, 92777), (92864, 92873), (93008, 93017), (120782, 120831), (123200, 123209),
     (123632, 123641), (125264, 125273), (130032, 130041)]"

definition is_decimal :: "nat \<Rightarrow> bool" where
  "is_decimal c = list_ex (\<lambda>(lo, hi). lo \<le> c \<and> c \<le> hi) nd_ranges"

text \<open>\<open>s.strip()\<close>: leading and trailing whitespace removed.\<close>

definition lstrip :: "pystr \<Rightarrow> pystr" where
  "lstrip s = dropWhile is_space s"

definition rstrip :: "pystr \<Rightarrow> pystr" where
  "rstrip s = rev (dropWhile is_space (rev s))"

definition strip :: "pystr \<Rightarrow> pystr" where
  "strip s = rstrip (lstrip s)"

text \<open>\<open>s.split(c)\<close> for a separator of one character: never an empty list.\<close>

fun split_char :: "nat \<Rightarrow> pystr \<Rightarrow> pystr list" where
  "split_char c [] = [[]]"
| "split_char c (x # xs) =
     (if x = c then [] # split_char c xs
      else (case split_char c xs of
              [] \<Rightarrow> [[x]]
            | w # ws \<Rightarrow> (x # w) # ws))"

text \<open>\<open>sep.join(xs)\<close>.\<close>

fun str_join :: "pystr \<Rightarrow> pystr list \<Rightarrow> pystr" where
  "str_join sep [] = []"
| "str_join sep [x] = x"
| "str_join sep (x # y # ys) = x @ sep @ str_join sep (y # ys)"

section \<open>The regular expressions of the parser\<close>

text \<open>
  The three patterns of \<open>parse_checklist\<close> use literals, the classes \<open>\d\<close>, \<open>\s\<close> and
  \<open>.\<close>, a set of characters, \<open>^\<close> and \<open>$\<close>, greedy \<open>*\<close> and \<open>+\<close>, the lazy \<open>+?\<close>, and one
  capturing group. \<open>re.match\<close> is a backtracking matcher: it tries the alternatives in a
  fixed order and returns the first that succeeds. The model lists, for a pattern and a
  position, every way to match in the order the matcher tries them; the head of the list
  is the match \<open>re.match\<close> returns.

  A matcher state is the number of characters consumed so far, the rest of the subject,
  and the text of group 1 when the group has been closed.
\<close>

datatype re =
    Lit nat
  | Digit
  | Space
  | Dot
  | OneOf "nat list"
  | Bol
  | Eol
  | Seq re re
  | Star re
  | StarLazy re
  | Grp re

type_synonym mstate = "nat \<times> pystr \<times> pystr option"

fun one_char :: "(nat \<Rightarrow> bool) \<Rightarrow> mstate \<Rightarrow> mstate list" where
  "one_char P (n, [], g) = []"
| "one_char P (n, c # cs, g) = (if P c then [(Suc n, cs, g)] else [])"

fun remaining :: "mstate \<Rightarrow> nat" where
  "remaining (n, s, g) = length s"

text \<open>
  \<open>.\<close> is every character but the line feed; \<open>$\<close> holds at the end of the subject and
  before a line feed that ends it; \<open>^\<close> holds where nothing has been consumed. A greedy
  star tries one more round of its body before it tries to stop, a lazy one the other way
  round. A round that consumes nothing ends the repetition (no body of the patterns below
  can match the empty string).
\<close>

fun rmatch :: "re \<Rightarrow> mstate \<Rightarrow> mstate list" where
  "rmatch (Lit c) st = one_char (\<lambda>x. x = c) st"
| "rmatch Digit st = one_char is_decimal st"
| "rmatch Space st = one_char is_space st"
| "rmatch Dot st = one_char (\<lambda>x. x \<noteq> 10) st"
| "rmatch (OneOf cs) st = one_char (\<lambda>x. x \<in> set cs) st"
| "rmatch Bol (n, s, g) = (if n = 0 then [(n, s, g)] else [])"
| "rmatch Eol (n, s, g) = (if s = [] \<or> s = [10] then [(n, s, g)] else [])"
| "rmatch (Seq a b) st = concat (map (rmatch b) (rmatch a st))"
| "rmatch (Star r) st =
     concat (map (\<lambda>st'. if remaining st' < remaining st then rmatch (Star r) st' else [])
                 (rmatch r st)) @ [st]"
| "rmatch (StarLazy r) st =
     st # concat (map (\<lambda>st'. if remaining st' < remaining st then rmatch (StarLazy r) st' else [])
                      (rmatch r st))"
| "rmatch (Grp r) (n, s, g) =
     map (\<lambda>(n', s', g'). (n', s', Some (take (n' - n) s))) (rmatch r (n, s, g))"

text \<open>
  The equations of the two stars call themselves, under their guard; they are unfolded
  where asked for, not by default.
\<close>

declare rmatch.simps(9) [simp del] rmatch.simps(10) [simp del]

text \<open>\<open>r+\<close> is \<open>r\<close> then \<open>r*\<close>, and \<open>r+?\<close> is \<open>r\<close> then \<open>r*?\<close>.\<close>

definition rplus :: "re \<Rightarrow> re" where
  "rplus r = Seq r (Star r)"

definition rplus_lazy :: "re \<Rightarrow> re" where
  "rplus_lazy r = Seq r (StarLazy r)"

fun lits :: "pystr \<Rightarrow> re \<Rightarrow> re" where
  "lits [] r = r"
| "lits (c # cs) r = Seq (Lit c) (lits cs r)"

text \<open>
  \<open>re.match(pattern, subject)\<close>: the match object (here the text of group 1, which is all
  the program reads from it), or \<open>None\<close>.
\<close>

definition re_match :: "re \<Rightarrow> pystr \<Rightarrow> pystr option option" where
  "re_match r s = (case rmatch r (0, s, None) of [] \<Rightarrow> None | (n, s', g) # _ \<Rightarrow> Some g)"

text \<open>
  The patterns of \<open>parse_checklist\<close>:
  \<^verbatim>\<open>^## (Phase \d+:.+?)(?:\s*[...])*\s*$\<close> (the set holds the nine code points of the
  decorative symbols U+2699, U+FE0F, U+1F310, U+1F50C, U+1F3A8, U+1F512, U+1F4E6, U+2728
  and U+1F680), \<^verbatim>\<open>^### (.+)$\<close> and \<^verbatim>\<open>^- \[ \] (.+)$\<close>.
\<close>

definition symbols :: "nat list" where
  "symbols = [0x2699, 0xFE0F, 0x1F310, 0x1F50C, 0x1F3A8, 0x1F512, 0x1F4E6, 0x2728, 0x1F680]"

definition phase_re :: re where
  "phase_re =
     Seq Bol (lits (u ''## '')
       (Seq (Grp (lits (u ''Phase '') (Seq (rplus Digit) (Seq (Lit 58) (rplus_lazy Dot)))))
         (Seq (Star (Seq (Star Space) (OneOf symbols)))
           (Seq (Star Space) Eol))))"

definition section_re :: re where
  "section_re = Seq Bol (lits (u ''### '') (Seq (Grp (rplus Dot)) Eol))"

definition task_re :: re where
  "task_re = Seq Bol (lits (u ''- [ ] '') (Seq (Grp (rplus Dot)) Eol))"

section \<open>parse_checklist\<close>

text \<open>
  What can be raised: the errors of opening and decoding the file, of starting a process
  and of writing to standard output (\<open>OSError\<close>, \<open>UnicodeDecodeError\<close>,
  \<open>UnicodeEncodeError\<close>), \<open>KeyError\<close> of a dictionary read with a key it does not hold,
  \<open>AttributeError\<close> of \<open>.strip()\<close> on a group that is \<open>None\<close>.
\<close>

datatype py_error =
  OSError | UnicodeDecodeError | UnicodeEncodeError | KeyError pystr | AttributeError

text \<open>
  A \<open>dict\<close> keeps its keys in the order of their first insertion, and the driver walks
  the dictionaries in that order: an association list, written with \<open>AList.update\<close>
  (a key that is there keeps its place, a new one goes last) and read with \<open>map_of\<close>.
\<close>

type_synonym sections = "(pystr \<times> pystr list) list"
type_synonym phases = "(pystr \<times> sections) list"

record pstate =
  phases :: phases
  current_phase :: "pystr option"
  current_section :: "pystr option"

definition init_state :: pstate where
  "init_state = \<lparr>phases = [], current_phase = None, current_section = None\<rparr>"

text \<open>The truth value of a variable that holds \<open>None\<close> or a string.\<close>

fun truthy :: "pystr option \<Rightarrow> bool" where
  "truthy None = False"
| "truthy (Some s) = (s \<noteq> [])"

text \<open>\<open>phases[p][s] = []\<close> and \<open>phases[p][s].append(t)\<close>.\<close>

definition set_section :: "phases \<Rightarrow> pystr \<Rightarrow> pystr \<Rightarrow> py_error + phases" where
  "set_section ph p s =
     (case map_of ph p of
        None \<Rightarrow> Inl (KeyError p)
      | Some secs \<Rightarrow> Inr (AList.update p (AList.update s [] secs) ph))"

definition append_task :: "phases \<Rightarrow> pystr \<Rightarrow> pystr \<Rightarrow> pystr \<Rightarrow> py_error + phases" where
  "append_task ph p s t =
     (case map_of ph p of
        None \<Rightarrow> Inl (KeyError p)
      | Some secs \<Rightarrow>
          (case map_of secs s of
             None \<Rightarrow> Inl (KeyError s)
           | Some ts \<Rightarrow> Inr (AList.update p (AList.update s (ts @ [t]) secs) ph)))"

text \<open>
  The body of the loop over the lines. A phase header sets \<open>current_phase\<close> and the empty
  dictionary of the phase and goes on to the next line; \<open>current_section\<close> is not
  assigned there. A section header counts when \<open>current_phase\<close> is true, a task line
  when \<open>current_phase\<close> and \<open>current_section\<close> are.
\<close>

definition step :: "pstate \<Rightarrow> pystr \<Rightarrow> py_error + pstate" where
  "step st line =
     (let phase_match = re_match phase_re (strip line) in
      if phase_match \<noteq> None then
        (case the phase_match of
           None \<Rightarrow> Inl AttributeError
         | Some g \<Rightarrow>
             Inr (st\<lparr>current_phase := Some (strip g),
                      phases := AList.update (strip g) [] (phases st)\<rparr>))
      else
        let section_match = re_match section_re (strip line) in
        if section_match \<noteq> None \<and> truthy (current_phase st) then
          (case the section_match of
             None \<Rightarrow> Inl AttributeError
           | Some g \<Rightarrow>
               (case set_section (phases st) (the (current_phase st)) (strip g) of
                  Inl e \<Rightarrow> Inl e
                | Inr ph \<Rightarrow> Inr (st\<lparr>current_section := Some (strip g), phases := ph\<rparr>)))
        else
          let task_match = re_match task_re (strip line) in
          if task_match \<noteq> None \<and> truthy (current_phase st) \<and> truthy (current_section st) then
            (case the task_match of
               None \<Rightarrow> Inl AttributeError
             | Some g \<Rightarrow>
                 (case append_task (phases st) (the (current_phase st))
                         (the (current_section st)) (strip g) of
                    Inl e \<Rightarrow> Inl e
                  | Inr ph \<Rightarrow> Inr (st\<lparr>phases := ph\<rparr>)))
          else Inr st)"

fun run_lines :: "pstate \<Rightarrow> pystr list \<Rightarrow> py_error + pstate" where
  "run_lines st [] = Inr st"
| "run_lines st (l # ls) = (case step st l of Inl e \<Rightarrow> Inl e | Inr st' \<Rightarrow> run_lines st' ls)"

definition parse_lines :: "pystr list \<Rightarrow> py_error + phases" where
  "parse_lines ls = (case run_lines init_state ls of Inl e \<Rightarrow> Inl e | Inr st \<Rightarrow> Inr (phases st))"

text \<open>
  \<open>f.readlines()\<close> on the text of the file as the text layer hands it over (decoded, every
  line end a line feed): each line keeps its line feed, the last may have none.
\<close>

fun readlines :: "pystr \<Rightarrow> pystr list" where
  "readlines [] = []"
| "readlines (c # cs) =
     (if c = 10 then [10] # readlines cs
      else (case readlines cs of
              [] \<Rightarrow> [[c]]
            | l # ls \<Rightarrow> (c # l) # ls))"

text \<open>
  \<open>parse_checklist(filepath)\<close>. The file system is a parameter: what \<open>open\<close> and
  \<open>readlines\<close> raise, or the text of the file.
\<close>

definition parse_checklist :: "(pystr \<Rightarrow> py_error + pystr) \<Rightarrow> pystr \<Rightarrow> py_error + phases" where
  "parse_checklist fs filepath =
     (case fs filepath of
        Inl e \<Rightarrow> Inl e
      | Inr content \<Rightarrow> parse_lines (readlines content))"

section \<open>generate_issue_content\<close>

text \<open>
  The title is an f-string over \<open>phase.split(':')[0]\<close> and the section; the body is a
  fixed head naming the section and the phase, one line \<open>- [ ] task\<close> added per task by
  the loop, and a fixed tail.
\<close>

definition issue_title :: "pystr \<Rightarrow> pystr \<Rightarrow> pystr" where
  "issue_title phase section = u ''['' @ split_char 58 phase ! 0 @ u ''] '' @ section"

definition body_head :: "pystr \<Rightarrow> pystr \<Rightarrow> pystr" where
  "body_head phase section =
     u ''## Description'' @ nl @
     u ''Implement the following tasks for **'' @ section @ u ''** in **'' @ phase @ u ''**.'' @ nl @
     nl @
     u ''## Tasks'' @ nl"

fun add_tasks :: "pystr \<Rightarrow> pystr list \<Rightarrow> pystr" where
  "add_tasks body [] = body"
| "add_tasks body (task # tasks) = add_tasks (body @ u ''- [ ] '' @ task @ nl) tasks"

definition body_tail :: pystr where
  "body_tail =
     nl @
     u ''## Context'' @ nl @
     u ''This issue is part of the implementation checklist for the Proxy Desktop Browser project.'' @ nl @
     nl @
     u ''## Acceptance Criteria'' @ nl @
     u ''- All tasks listed above are completed'' @ nl @
     u ''- Code is tested and working'' @ nl @
     u ''- Documentation is updated if needed'' @ nl"

definition generate_issue_content :: "pystr \<Rightarrow> pystr \<Rightarrow> pystr list \<Rightarrow> pystr \<times> pystr" where
  "generate_issue_content phase section tasks =
     (issue_title phase section, add_tasks (body_head phase section) tasks @ body_tail)"

section \<open>Printing\<close>

text \<open>
  \<open>print\<close> writes a line to standard output, or raises: \<open>UnicodeEncodeError\<close> when the
  encoding of standard output has no code for a character of the line, \<open>OSError\<close> when
  the stream is closed or broken. Standard output is outside the program, so it is a
  parameter: given the lines printed so far and the line to print, the error raised, or
  \<open>None\<close> when the line is written. The effects of a run are the lines it printed and the
  command lines it ran.
\<close>

type_synonym console = "pystr list \<Rightarrow> pystr \<Rightarrow> py_error option"

record io =
  invoked :: "pystr list list"
  printed :: "pystr list"

text \<open>A run of \<open>print\<close> statements: the first that raises ends it.\<close>

fun print_lines :: "console \<Rightarrow> io \<Rightarrow> pystr list \<Rightarrow> py_error option \<times> io" where
  "print_lines con w [] = (None, w)"
| "print_lines con w (line # rest) =
     (case con (printed w) line of
        Some e \<Rightarrow> (Some e, w)
      | None \<Rightarrow> print_lines con (w\<lparr>printed := printed w @ [line]\<rparr>) rest)"

text \<open>\<open>str(n)\<close> of a number that is not negative, as the f-strings print it.\<close>

fun str_nat :: "nat \<Rightarrow> pystr" where
  "str_nat n = (if n < 10 then [48 + n] else str_nat (n div 10) @ [48 + n mod 10])"

declare str_nat.simps [simp del]

section \<open>create_github_issue\<close>

text \<open>
  The tracker is outside the program: \<open>subprocess.run\<close> either raises (the command cannot
  be started) or hands back the finished process. What the tracker answers may depend on
  everything it was asked before, so it is a function of the earlier command lines and
  of this one. The two report lines start with the marks U+2705 and U+274C.
\<close>

record completed =
  returncode :: int
  stdout :: pystr
  stderr :: pystr

type_synonym tracker = "pystr list list \<Rightarrow> pystr list \<Rightarrow> py_error + completed"

definition issue_cmd :: "pystr \<Rightarrow> pystr \<Rightarrow> pystr list option \<Rightarrow> pystr list" where
  "issue_cmd title body labels =
     [u ''gh'', u ''issue'', u ''create'', u ''--title'', title, u ''--body'', body] @
     (case labels of
        None \<Rightarrow> []
      | Some ls \<Rightarrow> if ls \<noteq> [] then [u ''--label'', str_join (u '','') ls] else [])"

definition create_github_issue ::
  "tracker \<Rightarrow> console \<Rightarrow> io \<Rightarrow> pystr \<Rightarrow> pystr \<Rightarrow> pystr list option \<Rightarrow>
     (py_error + bool) \<times> io" where
  "create_github_issue gh con w title body labels =
     (let cmd = issue_cmd title body labels;
          w1 = w\<lparr>invoked := invoked w @ [cmd]\<rparr>
      in case gh (invoked w) cmd of
           Inl e \<Rightarrow> (Inl e, w1)
         | Inr result \<Rightarrow>
             if returncode result = 0 then
               (case print_lines con w1
                       [[0x2705] @ u '' Created issue: '' @ title,
                        u ''   URL: '' @ strip (stdout result)] of
                  (Some e, w2) \<Rightarrow> (Inl e, w2)
                | (None, w2) \<Rightarrow> (Inr True, w2))
             else
               (case print_lines con w1
                       [[0x274C] @ u '' Failed to create issue: '' @ title,
                        u ''   Error: '' @ stderr result] of
                  (Some e, w2) \<Rightarrow> (Inl e, w2)
                | (None, w2) \<Rightarrow> (Inr False, w2)))"

section \<open>main\<close>

text \<open>
  How a run ends: \<open>main\<close> returns, \<open>sys.exit(n)\<close> is called, or an exception nobody
  catches leaves \<open>main\<close>. The interpreter's exit status is 0 for the first, \<open>n\<close> for the
  second and 1 for the third.
\<close>

datatype ending = Returned | SysExit int | Uncaught py_error


text \<open>\<open>xs.index(x)\<close> where \<open>x in xs\<close> has been checked.\<close>

definition index_of :: "'a \<Rightarrow> 'a list \<Rightarrow> nat" where
  "index_of x xs = length (takeWhile (\<lambda>y. y \<noteq> x) xs)"

definition get_phase_filter :: "pystr list \<Rightarrow> pystr option" where
  "get_phase_filter argv =
     (if u ''--phase'' \<in> set argv then
        (let idx = index_of (u ''--phase'') argv in
         if idx + 1 < length argv then Some (argv ! (idx + 1)) else None)
      else None)"

definition usage_lines :: "pystr list" where
  "usage_lines =
     [u ''Usage: python gh_issue_generator.py <checklist_file> [--create] [--phase <phase_num>]'',
      nl @ u ''Options:'',
      u ''  --create     Actually create the issues on GitHub'',
      u ''  --phase N    Only process phase N (e.g., --phase 3)'',
      u ''  --list       List all phases and sections with task counts'']"

text \<open>The \<open>--list\<close> branch: a line per phase, a line per section that has tasks, the total.\<close>

definition phase_tasks :: "sections \<Rightarrow> nat" where
  "phase_tasks secs = sum_list (map (\<lambda>(section, tasks). length tasks) secs)"

definition summary :: "phases \<Rightarrow> pystr list" where
  "summary phs =
     [nl @ u ''=== Implementation Checklist Summary ==='' @ nl] @
     concat (map (\<lambda>(phase, secs).
                (nl @ phase @ u '' ('' @ str_nat (phase_tasks secs) @ u '' tasks)'') #
                map (\<lambda>(section, tasks).
                       u ''  - '' @ section @ u '': '' @ str_nat (length tasks) @ u '' tasks'')
                    (filter (\<lambda>(section, tasks). tasks \<noteq> []) secs)) phs) @
     [nl @ replicate 40 61,
      u ''Total uncompleted tasks: '' @
        str_nat (sum_list (map (\<lambda>(phase, secs). phase_tasks secs) phs))]"

text \<open>
  The loop that collects the issues. A phase is skipped when \<open>phase_filter\<close> is true and
  the label does not start with \<open>Phase \<close> followed by the filter; a section without tasks
  gives no issue.
\<close>

definition skipped :: "pystr option \<Rightarrow> pystr \<Rightarrow> bool" where
  "skipped phase_filter phase =
     (truthy phase_filter \<and> \<not> prefix (u ''Phase '' @ the phase_filter) phase)"

fun section_issues :: "pystr \<Rightarrow> sections \<Rightarrow> (pystr \<times> pystr \<times> pystr) list" where
  "section_issues phase [] = []"
| "section_issues phase ((section, tasks) # secs) =
     (if tasks \<noteq> [] then
        (case generate_issue_content phase section tasks of
           (title, body) \<Rightarrow> (title, body, phase) # section_issues phase secs)
      else section_issues phase secs)"

fun issues_to_create :: "pystr option \<Rightarrow> phases \<Rightarrow> (pystr \<times> pystr \<times> pystr) list" where
  "issues_to_create phase_filter [] = []"
| "issues_to_create phase_filter ((phase, secs) # phs) =
     (if skipped phase_filter phase then issues_to_create phase_filter phs
      else section_issues phase secs @ issues_to_create phase_filter phs)"

text \<open>The numbered list of the titles, \<open>enumerate\<close> counting from its second argument.\<close>

fun item_lines :: "nat \<Rightarrow> (pystr \<times> pystr \<times> pystr) list \<Rightarrow> pystr list" where
  "item_lines i [] = []"
| "item_lines i ((title, body, phase) # rest) =
     (str_nat i @ u ''. '' @ title) # item_lines (i + 1) rest"

definition found_lines :: "(pystr \<times> pystr \<times> pystr) list \<Rightarrow> pystr list" where
  "found_lines todo =
     [nl @ u ''=== GitHub Issue Generator ==='' @ nl,
      u ''Found '' @ str_nat (length todo) @ u '' potential issues to create:'' @ nl] @
     item_lines 1 todo"

definition creating_line :: "(pystr \<times> pystr \<times> pystr) list \<Rightarrow> pystr" where
  "creating_line todo =
     nl @ u ''Creating '' @ str_nat (length todo) @ u '' issues on GitHub...'' @ nl"

definition dry_run_lines :: "pystr list" where
  "dry_run_lines =
     [nl @ u ''Run with --create flag to actually create these issues on GitHub.'',
      u ''Example: python gh_issue_generator.py IMPLEMENTATION_CHECKLIST.md --create'']"

text \<open>
  The loop that creates the issues: an exception of \<open>create_github_issue\<close> leaves the
  loop, its return value is not read.
\<close>

fun create_all ::
  "tracker \<Rightarrow> console \<Rightarrow> io \<Rightarrow> (pystr \<times> pystr \<times> pystr) list \<Rightarrow> py_error option \<times> io" where
  "create_all gh con w [] = (None, w)"
| "create_all gh con w ((title, body, phase) # rest) =
     (case create_github_issue gh con w title body None of
        (Inl e, w') \<Rightarrow> (Some e, w')
      | (Inr ok, w') \<Rightarrow> create_all gh con w' rest)"

text \<open>The end of a branch of \<open>main\<close> that may have raised.\<close>

fun finish :: "ending \<Rightarrow> py_error option \<times> io \<Rightarrow> ending \<times> io" where
  "finish how (Some e, w) = (Uncaught e, w)"
| "finish how (None, w) = (how, w)"

definition main ::
  "(pystr \<Rightarrow> py_error + pystr) \<Rightarrow> tracker \<Rightarrow> console \<Rightarrow> pystr list \<Rightarrow> ending \<times> io" where
  "main fs gh con argv =
     (let w0 = \<lparr>invoked = [], printed = []\<rparr> in
      if length argv < 2 then finish (SysExit 1) (print_lines con w0 usage_lines)
      else
        let filepath = argv ! 1;
            create_issues = (u ''--create'' \<in> set argv);
            list_only = (u ''--list'' \<in> set argv);
            phase_filter = get_phase_filter argv
        in case parse_checklist fs filepath of
             Inl e \<Rightarrow> (Uncaught e, w0)
           | Inr phs \<Rightarrow>
               if list_only then finish Returned (print_lines con w0 (summary phs))
               else
                 let todo = issues_to_create phase_filter phs
                 in (case print_lines con w0 (found_lines todo) of
                       (Some e, w1) \<Rightarrow> (Uncaught e, w1)
                     | (None, w1) \<Rightarrow>
                         (if create_issues then
                            (case print_lines con w1 [creating_line todo] of
                               (Some e, w2) \<Rightarrow> (Uncaught e, w2)
                             | (None, w2) \<Rightarrow> finish Returned (create_all gh con w2 todo))
                          else finish Returned (print_lines con w1 dry_run_lines))))"

section \<open>What a match consumes\<close>

text \<open>
  Every state the matcher reaches from a state lies further on in the same subject: the
  counter of consumed characters and the rest of the subject move together.
\<close>

definition advances :: "mstate \<Rightarrow> mstate \<Rightarrow> bool" where
  "advances st st' =
     (fst st \<le> fst st' \<and> fst st' - fst st \<le> length (fst (snd st)) \<and>
      fst (snd st') = drop (fst st' - fst st) (fst (snd st)))"

lemma advances_refl: "advances st st"
  by (simp add: advances_def)

lemma advances_trans: "advances a b \<Longrightarrow> advances b c \<Longrightarrow> advances a c"
  by (auto simp: advances_def)

lemma one_char_mem:
  "x \<in> set (one_char P (n, s, g)) \<longleftrightarrow> (\<exists>c cs. s = c # cs \<and> P c \<and> x = (Suc n, cs, g))"
  by (cases s) auto

lemma one_char_advances: "x \<in> set (one_char P st) \<Longrightarrow> advances st x"
  by (cases st) (auto simp: one_char_mem advances_def)

lemma Star_mem:
  "x \<in> set (rmatch (Star r) st) \<longleftrightarrow>
     x = st \<or> (\<exists>y \<in> set (rmatch r st). remaining y < remaining st \<and> x \<in> set (rmatch (Star r) y))"
  by (subst rmatch.simps(9)) (auto split: if_splits)

lemma StarLazy_mem:
  "x \<in> set (rmatch (StarLazy r) st) \<longleftrightarrow>
     x = st \<or> (\<exists>y \<in> set (rmatch r st). remaining y < remaining st \<and> x \<in> set (rmatch (StarLazy r) y))"
  by (subst rmatch.simps(10)) (auto split: if_splits)

lemma Seq_mem:
  "x \<in> set (rmatch (Seq a b) st) \<longleftrightarrow> (\<exists>y \<in> set (rmatch a st). x \<in> set (rmatch b y))"
  by auto

lemma rmatch_advances: "x \<in> set (rmatch r st) \<Longrightarrow> advances st x"
proof (induction r st arbitrary: x rule: rmatch.induct)
  case (8 a b st)
  then obtain y where y: "y \<in> set (rmatch a st)" "x \<in> set (rmatch b y)"
    by (auto simp only: Seq_mem)
  with 8 show ?case by (blast intro: advances_trans)
next
  case (9 r st)
  show ?case
  proof (cases "x = st")
    case True
    then show ?thesis by (simp add: advances_refl)
  next
    case False
    with 9(3) obtain y where y: "y \<in> set (rmatch r st)" "remaining y < remaining st"
      "x \<in> set (rmatch (Star r) y)"
      using Star_mem [of x r st] by blast
    with 9(1,2) show ?thesis by (blast intro: advances_trans)
  qed
next
  case (10 r st)
  show ?case
  proof (cases "x = st")
    case True
    then show ?thesis by (simp add: advances_refl)
  next
    case False
    with 10(3) obtain y where y: "y \<in> set (rmatch r st)" "remaining y < remaining st"
      "x \<in> set (rmatch (StarLazy r) y)"
      using StarLazy_mem [of x r st] by blast
    with 10(1,2) show ?thesis by (blast intro: advances_trans)
  qed
next
  case (11 r n s g)
  then obtain n' s' g' where "(n', s', g') \<in> set (rmatch r (n, s, g))"
    "x = (n', s', Some (take (n' - n) s))"
    by auto
  with 11(1) [of "(n', s', g')"] show ?case by (simp add: advances_def)
qed (simp_all add: one_char_advances, auto simp: advances_def split: if_splits)

text \<open>
  The guard of the two stars never decides anything for the patterns of the program: the
  bodies of their repetitions (\<open>\d\<close>, \<open>.\<close>, \<open>\s\<close>, and \<open>\s*\<close> followed by a symbol) consume a
  character in every round.
\<close>

fun consuming :: "re \<Rightarrow> bool" where
  "consuming (Lit c) = True"
| "consuming Digit = True"
| "consuming Space = True"
| "consuming Dot = True"
| "consuming (OneOf cs) = True"
| "consuming (Seq a b) = (consuming a \<or> consuming b)"
| "consuming (Grp r) = consuming r"
| "consuming r = False"

lemma advances_remaining: "advances st y \<Longrightarrow> remaining y \<le> remaining st"
  by (cases st; cases y) (auto simp: advances_def)

lemma consuming_shorter:
  "consuming r \<Longrightarrow> y \<in> set (rmatch r st) \<Longrightarrow> remaining y < remaining st"
proof (induction r arbitrary: st y)
  case (Seq a b)
  from Seq.prems(2) obtain z where z: "z \<in> set (rmatch a st)" "y \<in> set (rmatch b z)"
    by (auto simp only: Seq_mem)
  from z have le: "remaining z \<le> remaining st" "remaining y \<le> remaining z"
    by (auto dest!: rmatch_advances advances_remaining)
  from Seq.prems(1) have "consuming a \<or> consuming b" by simp
  then show ?case
  proof
    assume "consuming a"
    from Seq.IH(1) [OF this z(1)] le show ?thesis by simp
  next
    assume "consuming b"
    from Seq.IH(2) [OF this z(2)] le show ?thesis by simp
  qed
next
  case (Grp r)
  then show ?case by (cases st) force
qed (auto simp: one_char_mem elim!: remaining.elims)

lemma Star_unguarded:
  assumes "consuming r"
  shows "rmatch (Star r) st = concat (map (rmatch (Star r)) (rmatch r st)) @ [st]"
proof -
  have h: "map (\<lambda>st'. if remaining st' < remaining st then rmatch (Star r) st' else []) (rmatch r st)
      = map (rmatch (Star r)) (rmatch r st)"
    using consuming_shorter [OF assms] by (intro map_cong) auto
  show ?thesis by (subst rmatch.simps(9)) (simp only: h)
qed

lemma StarLazy_unguarded:
  assumes "consuming r"
  shows "rmatch (StarLazy r) st = st # concat (map (rmatch (StarLazy r)) (rmatch r st))"
proof -
  have h: "map (\<lambda>st'. if remaining st' < remaining st then rmatch (StarLazy r) st' else []) (rmatch r st)
      = map (rmatch (StarLazy r)) (rmatch r st)"
    using consuming_shorter [OF assms] by (intro map_cong) auto
  show ?thesis by (subst rmatch.simps(10)) (simp only: h)
qed

lemma pattern_rounds_consume:
  "consuming Digit" "consuming Dot" "consuming Space" "consuming (Seq (Star Space) (OneOf symbols))"
  by simp_all


text \<open>
  The patterns each hold their one group outside every repetition, so a match always has
  its group: \<open>.group(1)\<close> is never \<open>None\<close> and \<open>.strip()\<close> on it cannot raise.
\<close>

fun has_grp :: "re \<Rightarrow> bool" where
  "has_grp (Grp r) = True"
| "has_grp (Seq a b) = (has_grp a \<or> has_grp b)"
| "has_grp r = False"

lemma rmatch_group_set:
  "x \<in> set (rmatch r st) \<Longrightarrow> has_grp r \<or> snd (snd st) \<noteq> None \<Longrightarrow> snd (snd x) \<noteq> None"
proof (induction r st arbitrary: x rule: rmatch.induct)
  case (8 a b st)
  then obtain y where y: "y \<in> set (rmatch a st)" "x \<in> set (rmatch b y)"
    by (auto simp only: Seq_mem)
  show ?case
  proof (cases "has_grp a \<or> snd (snd st) \<noteq> None")
    case True
    with 8(1) [OF y(1)] have "snd (snd y) \<noteq> None" by blast
    with 8(2) [OF y(1) y(2)] show ?thesis by blast
  next
    case False
    with 8(4) have "has_grp b" by simp
    with 8(2) [OF y(1) y(2)] show ?thesis by blast
  qed
next
  case (9 r st)
  from 9(4) have g: "snd (snd st) \<noteq> None" by simp
  show ?case
  proof (cases "x = st")
    case True
    with g show ?thesis by simp
  next
    case False
    with 9(3) obtain y where y: "y \<in> set (rmatch r st)" "remaining y < remaining st"
      "x \<in> set (rmatch (Star r) y)"
      using Star_mem [of x r st] by blast
    from 9(1) [OF y(1)] g have "snd (snd y) \<noteq> None" by blast
    with 9(2) [OF y(1) y(2) y(3)] show ?thesis by blast
  qed
next
  case (10 r st)
  from 10(4) have g: "snd (snd st) \<noteq> None" by simp
  show ?case
  proof (cases "x = st")
    case True
    with g show ?thesis by simp
  next
    case False
    with 10(3) obtain y where y: "y \<in> set (rmatch r st)" "remaining y < remaining st"
      "x \<in> set (rmatch (StarLazy r) y)"
      using StarLazy_mem [of x r st] by blast
    from 10(1) [OF y(1)] g have "snd (snd y) \<noteq> None" by blast
    with 10(2) [OF y(1) y(2) y(3)] show ?thesis by blast
  qed
next
  case (11 r n s g)
  then show ?case by auto
qed (auto simp: one_char_mem split: if_splits)

lemma has_grp_lits: "has_grp (lits cs r) = has_grp r"
  by (induction cs) auto

lemma re_match_group:
  "has_grp r \<Longrightarrow> re_match r s \<noteq> Some None"
proof
  assume h: "has_grp r" and m: "re_match r s = Some None"
  then obtain n s' rest where "rmatch r (0, s, None) = (n, s', None) # rest"
    by (auto simp: re_match_def split: list.splits)
  then have "(n, s', None) \<in> set (rmatch r (0, s, None))" by simp
  from rmatch_group_set [OF this] h show False by simp
qed

lemma phase_re_group: "re_match phase_re s \<noteq> Some None"
  by (rule re_match_group) (simp add: phase_re_def has_grp_lits)

lemma section_re_group: "re_match section_re s \<noteq> Some None"
  by (rule re_match_group) (simp add: section_re_def has_grp_lits)

lemma task_re_group: "re_match task_re s \<noteq> Some None"
  by (rule re_match_group) (simp add: task_re_def has_grp_lits)

section \<open>The shape of the lines the patterns match\<close>

lemma lits_mem:
  "x \<in> set (rmatch (lits cs r) (n, s, g)) \<longleftrightarrow>
     (\<exists>s'. s = cs @ s' \<and> x \<in> set (rmatch r (n + length cs, s', g)))"
proof (induction cs arbitrary: n s)
  case Nil
  then show ?case by simp
next
  case (Cons c cs)
  show ?case
  proof (cases s)
    case Nil
    then show ?thesis by simp
  next
    case (Cons d ds)
    with Cons.IH [of "Suc n" ds] show ?thesis by auto
  qed
qed

lemma re_match_head:
  "re_match r s = Some g \<Longrightarrow> \<exists>n s'. (n, s', g) \<in> set (rmatch r (0, s, None))"
  by (auto simp: re_match_def split: list.splits)

lemma re_match_None: "re_match r s = None \<longleftrightarrow> rmatch r (0, s, None) = []"
  by (auto simp: re_match_def split: list.splits)

lemma rplus_mem:
  "x \<in> set (rmatch (rplus r) st) \<Longrightarrow>
     \<exists>y \<in> set (rmatch r st). advances y x"
  by (auto simp: rplus_def dest: rmatch_advances)

text \<open>The shape of a subject that the section or the task pattern matches.\<close>

lemma dot_group_shape:
  assumes "x \<in> set (rmatch (Seq (Grp (rplus Dot)) Eol) (k, s, None))"
  shows "\<exists>g. snd (snd x) = Some g \<and> g \<noteq> [] \<and> (s = g \<or> s = g @ [10])"
proof -
  from assms obtain y where y: "y \<in> set (rmatch (Grp (rplus Dot)) (k, s, None))"
    and x: "x \<in> set (rmatch Eol y)"
    by (auto simp only: Seq_mem)
  from y obtain n' s' g' where z: "(n', s', g') \<in> set (rmatch (rplus Dot) (k, s, None))"
    and yeq: "y = (n', s', Some (take (n' - k) s))"
    by auto
  from rplus_mem [OF z] obtain w where w: "w \<in> set (rmatch Dot (k, s, None))"
    and adv: "advances w (n', s', g')"
    by blast
  from w obtain c cs where s: "s = c # cs" and weq: "w = (Suc k, cs, None)"
    by (auto simp: one_char_mem)
  from rmatch_advances [OF z] have a: "k \<le> n'" "n' - k \<le> length s" "s' = drop (n' - k) s"
    by (auto simp: advances_def)
  from adv weq have "Suc k \<le> n'" by (simp add: advances_def)
  with s a have ne: "take (n' - k) s \<noteq> []" by auto
  from x yeq have e: "s' = [] \<or> s' = [10]" and xeq: "x = y"
    by (auto split: if_splits)
  have "s = take (n' - k) s @ s'" using a by simp
  with e ne xeq yeq show ?thesis by (metis append_Nil2 snd_conv)
qed

lemma section_match_shape:
  assumes "re_match section_re s = Some (Some g)"
  shows "g \<noteq> [] \<and> (s = u ''### '' @ g \<or> s = u ''### '' @ g @ [10])"
proof -
  from re_match_head [OF assms] obtain n s' where
    "(n, s', Some g) \<in> set (rmatch section_re (0, s, None))" by blast
  then have "(n, s', Some g) \<in> set (rmatch (lits (u ''### '') (Seq (Grp (rplus Dot)) Eol)) (0, s, None))"
    by (simp add: section_re_def)
  then obtain t where t: "s = u ''### '' @ t"
    and m: "(n, s', Some g) \<in> set (rmatch (Seq (Grp (rplus Dot)) Eol) (0 + length (u ''### ''), t, None))"
    unfolding lits_mem by blast
  from dot_group_shape [OF m] t show ?thesis by auto
qed

lemma task_match_shape:
  assumes "re_match task_re s = Some (Some g)"
  shows "g \<noteq> [] \<and> (s = u ''- [ ] '' @ g \<or> s = u ''- [ ] '' @ g @ [10])"
proof -
  from re_match_head [OF assms] obtain n s' where
    "(n, s', Some g) \<in> set (rmatch task_re (0, s, None))" by blast
  then have "(n, s', Some g) \<in> set (rmatch (lits (u ''- [ ] '') (Seq (Grp (rplus Dot)) Eol)) (0, s, None))"
    by (simp add: task_re_def)
  then obtain t where t: "s = u ''- [ ] '' @ t"
    and m: "(n, s', Some g) \<in> set (rmatch (Seq (Grp (rplus Dot)) Eol) (0 + length (u ''- [ ] ''), t, None))"
    unfolding lits_mem by blast
  from dot_group_shape [OF m] t show ?thesis by auto
qed

fun no_grp :: "re \<Rightarrow> bool" where
  "no_grp (Grp r) = False"
| "no_grp (Seq a b) = (no_grp a \<and> no_grp b)"
| "no_grp (Star r) = no_grp r"
| "no_grp (StarLazy r) = no_grp r"
| "no_grp r = True"

lemma rmatch_group_kept:
  "x \<in> set (rmatch r st) \<Longrightarrow> no_grp r \<Longrightarrow> snd (snd x) = snd (snd st)"
proof (induction r st arbitrary: x rule: rmatch.induct)
  case (8 a b st)
  then obtain y where y: "y \<in> set (rmatch a st)" "x \<in> set (rmatch b y)"
    by (auto simp only: Seq_mem)
  from 8(4) have "no_grp a" "no_grp b" by simp_all
  with 8(1) [OF y(1)] 8(2) [OF y(1) y(2)] show ?case by simp
next
  case (9 r st)
  show ?case
  proof (cases "x = st")
    case True
    then show ?thesis by simp
  next
    case False
    with 9(3) obtain y where y: "y \<in> set (rmatch r st)" "remaining y < remaining st"
      "x \<in> set (rmatch (Star r) y)"
      using Star_mem [of x r st] by blast
    from 9(4) have "no_grp r" by simp
    with 9(1) [OF y(1)] 9(2) [OF y(1) y(2) y(3)] 9(4) show ?thesis by simp
  qed
next
  case (10 r st)
  show ?case
  proof (cases "x = st")
    case True
    then show ?thesis by simp
  next
    case False
    with 10(3) obtain y where y: "y \<in> set (rmatch r st)" "remaining y < remaining st"
      "x \<in> set (rmatch (StarLazy r) y)"
      using StarLazy_mem [of x r st] by blast
    from 10(4) have "no_grp r" by simp
    with 10(1) [OF y(1)] 10(2) [OF y(1) y(2) y(3)] 10(4) show ?thesis by simp
  qed
qed (auto simp: one_char_mem split: if_splits)

definition phase_tail :: re where
  "phase_tail = Seq (Star (Seq (Star Space) (OneOf symbols))) (Seq (Star Space) Eol)"

definition phase_body :: re where
  "phase_body = Seq (rplus Digit) (Seq (Lit 58) (rplus_lazy Dot))"

lemma phase_re_parts:
  "phase_re = Seq Bol (lits (u ''## '') (Seq (Grp (lits (u ''Phase '') phase_body)) phase_tail))"
  by (simp add: phase_re_def phase_body_def phase_tail_def)

lemma phase_body_shape:
  assumes "(n, s', g) \<in> set (rmatch phase_body (k, t, None))"
  shows "\<exists>w1 w2. take (n - k) t = w1 @ 58 # w2"
proof -
  from assms obtain y1 where y1: "y1 \<in> set (rmatch (rplus Digit) (k, t, None))"
    and r1: "(n, s', g) \<in> set (rmatch (Seq (Lit 58) (rplus_lazy Dot)) y1)"
    unfolding phase_body_def by (auto simp only: Seq_mem)
  from r1 obtain y2 where y2: "y2 \<in> set (rmatch (Lit 58) y1)"
    and r2: "(n, s', g) \<in> set (rmatch (rplus_lazy Dot) y2)"
    by (auto simp only: Seq_mem)
  obtain m cs0 g1 where y1eq: "y1 = (m, cs0, g1)" by (cases y1) auto
  with y2 obtain cs where cs0: "cs0 = 58 # cs" and y2eq: "y2 = (Suc m, cs, g1)"
    by (auto simp: one_char_mem)
  from rmatch_advances [OF y1] y1eq cs0
  have a1: "k \<le> m" "m - k \<le> length t" "58 # cs = drop (m - k) t"
    by (auto simp: advances_def)
  from rmatch_advances [OF r2] y2eq have a2: "Suc m \<le> n"
    by (auto simp: advances_def)
  have "n - k = (m - k) + (n - m)" using a1(1) a2 by simp
  then have "take (n - k) t = take (m - k) t @ take (n - m) (drop (m - k) t)"
    by (simp only: take_add)
  also have "n - m = Suc (n - Suc m)" using a2 by simp
  then have "take (n - m) (drop (m - k) t) = 58 # take (n - Suc m) cs"
    using a1(3) [symmetric] by simp
  finally show ?thesis by blast
qed

lemma phase_match_shape:
  assumes "re_match phase_re s = Some (Some g)"
  shows "\<exists>w1 w2 rest. g = u ''Phase '' @ w1 @ 58 # w2 \<and> s = u ''## '' @ g @ rest"
proof -
  from re_match_head [OF assms] obtain n s' where
    "(n, s', Some g) \<in> set (rmatch phase_re (0, s, None))" by blast
  then have "(n, s', Some g) \<in> set (rmatch (lits (u ''## '')
      (Seq (Grp (lits (u ''Phase '') phase_body)) phase_tail)) (0, s, None))"
    by (simp add: phase_re_parts)
  then obtain t where t: "s = u ''## '' @ t"
    and m: "(n, s', Some g) \<in> set (rmatch (Seq (Grp (lits (u ''Phase '') phase_body)) phase_tail)
               (0 + length (u ''## ''), t, None))"
    unfolding lits_mem by blast
  define k where "k = 0 + length (u ''## '')"
  from m obtain y where y: "y \<in> set (rmatch (Grp (lits (u ''Phase '') phase_body)) (k, t, None))"
    and x: "(n, s', Some g) \<in> set (rmatch phase_tail y)"
    unfolding k_def by (auto simp only: Seq_mem)
  have "no_grp phase_tail" by (simp add: phase_tail_def)
  from rmatch_group_kept [OF x this] have gy: "snd (snd y) = Some g" by simp
  from y obtain n1 s1 g1 where
    z: "(n1, s1, g1) \<in> set (rmatch (lits (u ''Phase '') phase_body) (k, t, None))"
    and yeq: "y = (n1, s1, Some (take (n1 - k) t))"
    by auto
  from gy yeq have g: "g = take (n1 - k) t" by simp
  from z obtain t2 where t2: "t = u ''Phase '' @ t2"
    and b: "(n1, s1, g1) \<in> set (rmatch phase_body (k + length (u ''Phase ''), t2, None))"
    unfolding lits_mem by blast
  from phase_body_shape [OF b] obtain w1 w2 where
    w: "take (n1 - (k + length (u ''Phase ''))) t2 = w1 @ 58 # w2" by blast
  from rmatch_advances [OF b] have "k + length (u ''Phase '') \<le> n1"
    by (simp add: advances_def)
  then have "take (n1 - k) t = u ''Phase '' @ take (n1 - (k + length (u ''Phase ''))) t2"
    unfolding t2 by simp
  with g w have g': "g = u ''Phase '' @ w1 @ 58 # w2" by simp
  from rmatch_advances [OF z] have "n1 - k \<le> length t" by (simp add: advances_def)
  have "t = take (n1 - k) t @ drop (n1 - k) t" by simp
  with g t have "s = u ''## '' @ g @ drop (n1 - k) t" by simp
  with g' show ?thesis by blast
qed

text \<open>Stripping.\<close>

lemma lstrip_idem: "s \<noteq> [] \<Longrightarrow> \<not> is_space (hd s) \<Longrightarrow> lstrip s = s"
  by (cases s) (simp_all add: lstrip_def)

lemma rstrip_append:
  assumes "c \<in> set w" "\<not> is_space c"
  shows "rstrip (a @ w) = a @ rstrip w"
proof -
  from assms have "\<exists>x \<in> set (rev w). \<not> is_space x" by auto
  then have "dropWhile is_space (rev w @ rev a) = dropWhile is_space (rev w) @ rev a"
    by auto
  then show ?thesis by (simp add: rstrip_def)
qed

lemma rstrip_nonempty: "c \<in> set w \<Longrightarrow> \<not> is_space c \<Longrightarrow> rstrip w \<noteq> []"
  by (induction w rule: rev_induct) (auto simp: rstrip_def)

lemma strip_last: "strip s \<noteq> [] \<Longrightarrow> \<not> is_space (last (strip s))"
proof -
  assume "strip s \<noteq> []"
  then have ne: "dropWhile is_space (rev (lstrip s)) \<noteq> []" by (simp add: strip_def rstrip_def)
  then have "\<not> is_space (hd (dropWhile is_space (rev (lstrip s))))"
    by (rule hd_dropWhile)
  with ne show ?thesis by (simp add: strip_def rstrip_def last_rev)
qed

section \<open>The three kinds of line\<close>

text \<open>
  What the loop reads from a line: \<open>match.group(1).strip()\<close> for each of the three
  patterns, on the stripped line.
\<close>

definition phase_label :: "pystr \<Rightarrow> pystr option" where
  "phase_label line =
     (case re_match phase_re (strip line) of Some (Some g) \<Rightarrow> Some (strip g) | _ \<Rightarrow> None)"

definition section_label :: "pystr \<Rightarrow> pystr option" where
  "section_label line =
     (case re_match section_re (strip line) of Some (Some g) \<Rightarrow> Some (strip g) | _ \<Rightarrow> None)"

definition task_text :: "pystr \<Rightarrow> pystr option" where
  "task_text line =
     (case re_match task_re (strip line) of Some (Some g) \<Rightarrow> Some (strip g) | _ \<Rightarrow> None)"

lemma phase_label_None: "phase_label l = None \<longleftrightarrow> re_match phase_re (strip l) = None"
  using phase_re_group [of "strip l"]
  by (auto simp: phase_label_def split: option.splits)

lemma section_label_None: "section_label l = None \<longleftrightarrow> re_match section_re (strip l) = None"
  using section_re_group [of "strip l"]
  by (auto simp: section_label_def split: option.splits)

lemma task_text_None: "task_text l = None \<longleftrightarrow> re_match task_re (strip l) = None"
  using task_re_group [of "strip l"]
  by (auto simp: task_text_def split: option.splits)

lemma phase_label_Some:
  "phase_label l = Some p \<longleftrightarrow> (\<exists>g. re_match phase_re (strip l) = Some (Some g) \<and> p = strip g)"
  by (auto simp: phase_label_def split: option.splits)

lemma section_label_Some:
  "section_label l = Some p \<longleftrightarrow> (\<exists>g. re_match section_re (strip l) = Some (Some g) \<and> p = strip g)"
  by (auto simp: section_label_def split: option.splits)

lemma task_text_Some:
  "task_text l = Some p \<longleftrightarrow> (\<exists>g. re_match task_re (strip l) = Some (Some g) \<and> p = strip g)"
  by (auto simp: task_text_def split: option.splits)

lemma not_space_P: "\<not> is_space 80" and not_space_colon: "\<not> is_space 58"
  and space_nl: "is_space 10"
  by (simp_all add: is_space_def)

lemma phase_label_prefix:
  assumes "phase_label l = Some p"
  shows "prefix (u ''Phase '') p"
proof -
  from assms obtain g where g: "re_match phase_re (strip l) = Some (Some g)" and p: "p = strip g"
    by (auto simp: phase_label_Some)
  from phase_match_shape [OF g] obtain w1 w2 where w: "g = u ''Phase '' @ w1 @ 58 # w2"
    by blast
  then have "hd g = 80" "g \<noteq> []" by (simp_all add: u_def)
  then have "lstrip g = g" using not_space_P by (simp add: lstrip_idem)
  moreover have "rstrip ((u ''Phase '' @ w1) @ 58 # w2) = (u ''Phase '' @ w1) @ rstrip (58 # w2)"
    by (rule rstrip_append [of 58]) (simp_all add: not_space_colon)
  ultimately have "strip g = u ''Phase '' @ w1 @ rstrip (58 # w2)"
    using w by (simp add: strip_def)
  with p show ?thesis by simp
qed

lemma phase_label_nonempty: "phase_label l = Some p \<Longrightarrow> p \<noteq> []"
  using phase_label_prefix [of l p] by (auto simp: u_def)

lemma dropWhile_keeps: "c \<in> set s \<Longrightarrow> \<not> P c \<Longrightarrow> c \<in> set (dropWhile P s)"
  by (induction s) auto

lemma strip_nonempty: "c \<in> set s \<Longrightarrow> \<not> is_space c \<Longrightarrow> strip s \<noteq> []"
  unfolding strip_def lstrip_def by (rule rstrip_nonempty [OF dropWhile_keeps])

lemma group_to_end:
  assumes "strip l = pre @ g \<or> strip l = pre @ g @ [10]" "g \<noteq> []"
  shows "strip l = pre @ g \<and> strip g \<noteq> []"
proof -
  from assms have ne: "strip l \<noteq> []" by auto
  from strip_last [OF ne] have ns: "\<not> is_space (last (strip l))" .
  have "strip l \<noteq> pre @ g @ [10]"
  proof
    assume "strip l = pre @ g @ [10]"
    then have "last (strip l) = 10" by simp
    with ns space_nl show False by simp
  qed
  with assms have e: "strip l = pre @ g" by blast
  with assms(2) have "last (strip l) = last g" by simp
  with ns assms(2) have "strip g \<noteq> []" by (intro strip_nonempty [of "last g"]) simp_all
  with e show ?thesis by blast
qed

lemma section_label_nonempty: "section_label l = Some s \<Longrightarrow> s \<noteq> []"
  using section_match_shape group_to_end by (fastforce simp: section_label_Some)

lemma task_text_nonempty: "task_text l = Some s \<Longrightarrow> s \<noteq> []"
  using task_match_shape group_to_end by (fastforce simp: task_text_Some)

lemma phase_line_shape: "phase_label l \<noteq> None \<Longrightarrow> prefix (u ''## '') (strip l)"
  using phase_match_shape [of "strip l"] phase_re_group [of "strip l"]
  by (cases "re_match phase_re (strip l)") (auto simp: phase_label_None)

lemma section_line_shape: "section_label l \<noteq> None \<Longrightarrow> prefix (u ''### '') (strip l)"
  using section_match_shape [of "strip l"] section_re_group [of "strip l"]
  by (cases "re_match section_re (strip l)") (auto simp: section_label_None)

lemma task_line_shape: "task_text l \<noteq> None \<Longrightarrow> prefix (u ''- [ ] '') (strip l)"
  using task_match_shape [of "strip l"] task_re_group [of "strip l"]
  by (cases "re_match task_re (strip l)") (auto simp: task_text_None)

lemma shapes_differ:
  "\<not> (prefix (u ''## '') s \<and> prefix (u ''### '') s)"
  "\<not> (prefix (u ''## '') s \<and> prefix (u ''- [ ] '') s)"
  "\<not> (prefix (u ''### '') s \<and> prefix (u ''- [ ] '') s)"
  by (auto simp: u_def prefix_def)

lemma phase_excludes: "phase_label l \<noteq> None \<Longrightarrow> section_label l = None \<and> task_text l = None"
  using phase_line_shape [of l] section_line_shape [of l] task_line_shape [of l]
    shapes_differ [of "strip l"] by blast

lemma section_excludes: "section_label l \<noteq> None \<Longrightarrow> phase_label l = None \<and> task_text l = None"
  using phase_line_shape [of l] section_line_shape [of l] task_line_shape [of l]
    shapes_differ [of "strip l"] by blast

lemma task_excludes: "task_text l \<noteq> None \<Longrightarrow> phase_label l = None \<and> section_label l = None"
  using phase_line_shape [of l] section_line_shape [of l] task_line_shape [of l]
    shapes_differ [of "strip l"] by blast

section \<open>One step of the loop, by the kind of the line\<close>

lemma step_phase:
  assumes "phase_label l = Some p"
  shows "step st l = Inr (st\<lparr>current_phase := Some p, phases := AList.update p [] (phases st)\<rparr>)"
  using assms by (auto simp: step_def phase_label_Some)

lemma step_section:
  assumes "section_label l = Some s" "truthy (current_phase st)"
  shows "step st l =
     (case set_section (phases st) (the (current_phase st)) s of
        Inl e \<Rightarrow> Inl e
      | Inr ph \<Rightarrow> Inr (st\<lparr>current_section := Some s, phases := ph\<rparr>))"
proof -
  from assms(1) have "phase_label l = None" using section_excludes [of l] by simp
  then have "re_match phase_re (strip l) = None" by (simp add: phase_label_None)
  with assms show ?thesis by (auto simp: step_def section_label_Some)
qed

lemma step_task:
  assumes "task_text l = Some t" "truthy (current_phase st)" "truthy (current_section st)"
  shows "step st l =
     (case append_task (phases st) (the (current_phase st)) (the (current_section st)) t of
        Inl e \<Rightarrow> Inl e
      | Inr ph \<Rightarrow> Inr (st\<lparr>phases := ph\<rparr>))"
proof -
  from assms(1) have "phase_label l = None" "section_label l = None"
    using task_excludes [of l] by simp_all
  then have "re_match phase_re (strip l) = None" "re_match section_re (strip l) = None"
    by (simp_all add: phase_label_None section_label_None)
  with assms show ?thesis by (auto simp: step_def task_text_Some)
qed

lemma step_skip:
  assumes "phase_label l = None"
    and "section_label l = None \<or> \<not> truthy (current_phase st)"
    and "task_text l = None \<or> \<not> truthy (current_phase st) \<or> \<not> truthy (current_section st)"
  shows "step st l = Inr st"
proof -
  from assms(1) have p: "re_match phase_re (strip l) = None" by (simp add: phase_label_None)
  show ?thesis
  proof (cases "section_label l = None")
    case True
    then have s: "re_match section_re (strip l) = None" by (simp add: section_label_None)
    from assms(3) have "re_match task_re (strip l) = None \<or> \<not> truthy (current_phase st)
        \<or> \<not> truthy (current_section st)"
      by (auto simp: task_text_None)
    with p s show ?thesis by (auto simp: step_def)
  next
    case False
    with assms(2) have np: "\<not> truthy (current_phase st)" by simp
    from False have "task_text l = None" using section_excludes [of l] by simp
    then have "re_match task_re (strip l) = None" by (simp add: task_text_None)
    with p np show ?thesis by (auto simp: step_def)
  qed
qed

lemma run_lines_append:
  "run_lines st (xs @ ys) = (case run_lines st xs of Inl e \<Rightarrow> Inl e | Inr st' \<Rightarrow> run_lines st' ys)"
  by (induction xs arbitrary: st) (auto split: sum.splits)

section \<open>The title of an issue\<close>

lemma split_char_not_Nil: "split_char c s \<noteq> []"
  by (induction s) (auto split: list.splits)

lemma split_char_first: "split_char c s ! 0 = takeWhile (\<lambda>x. x \<noteq> c) s"
  using split_char_not_Nil [of c] by (induction s) (auto split: list.splits)

text \<open>
  C5. For a phase label with a colon, the title is \<open>[\<close>, the label up to its first colon
  (the colon left out), \<open>] \<close> and the section label; for the phase \<open>Phase 12: Foo Bar\<close> and
  the section \<open>Widget Support\<close> it is \<open>[Phase 12] Widget Support\<close>.
\<close>

theorem title_up_to_first_colon:
  "(58 \<notin> set a \<longrightarrow>
      fst (generate_issue_content (a @ [58] @ b) section tasks) = u ''['' @ a @ u ''] '' @ section) \<and>
   fst (generate_issue_content (u ''Phase 12: Foo Bar'') (u ''Widget Support'') tasks) =
     u ''[Phase 12] Widget Support''"
proof
  show "58 \<notin> set a \<longrightarrow>
      fst (generate_issue_content (a @ [58] @ b) section tasks) = u ''['' @ a @ u ''] '' @ section"
  proof
    assume "58 \<notin> set a"
    then have "takeWhile (\<lambda>x. x \<noteq> 58) (a @ [58] @ b) = a"
      by (induction a) auto
    then show "fst (generate_issue_content (a @ [58] @ b) section tasks) = u ''['' @ a @ u ''] '' @ section"
      by (simp add: generate_issue_content_def issue_title_def split_char_first)
  qed
  show "fst (generate_issue_content (u ''Phase 12: Foo Bar'') (u ''Widget Support'') tasks) =
     u ''[Phase 12] Widget Support''"
    by (simp add: generate_issue_content_def issue_title_def split_char_first u_def)
qed

theorem title_up_to_first_colon_witness:
  "58 \<notin> set (u ''Phase 3'') \<and>
   fst (generate_issue_content (u ''Phase 3'' @ [58] @ u '' Networking Layer: TCP'')
          (u ''Connection Pool'') [u ''reuse sockets'']) = u ''['' @ u ''Phase 3'' @ u ''] '' @ u ''Connection Pool''"
  using title_up_to_first_colon [of "u ''Phase 3''" "u '' Networking Layer: TCP''"
      "u ''Connection Pool''" "[u ''reuse sockets'']"]
  by (simp add: u_def)

section \<open>Running the parser on a document\<close>

lemmas text_defs = u_def nl_def strip_def lstrip_def rstrip_def is_space_def

lemmas match_defs = re_match_def phase_re_def section_re_def task_re_def rplus_def rplus_lazy_def
  symbols_def is_decimal_def nd_ranges_def rmatch.simps(9) rmatch.simps(10)

lemmas parse_defs = step_def parse_lines_def parse_checklist_def init_state_def set_section_def
  append_task_def phase_label_def section_label_def task_text_def Let_def

text \<open>
  C10. The claim that a line of four or more \<open>#\<close> marks is a section header fails on the
  code: the section pattern is anchored and wants a space right after the third mark.
  After a phase header, the line \<open>#### Foo\<close> creates no section.
\<close>

theorem four_marks_counterexample:
  "section_label (u ''#### Foo'' @ nl) = None \<and>
   parse_lines [u ''## Phase 1: A'' @ nl, u ''#### Foo'' @ nl] = Inr [(u ''Phase 1: A'', [])]"
  by (simp add: text_defs match_defs parse_defs)

text \<open>
  C10, as amended. A line that begins, once stripped, with four \<open>#\<close> marks matches none
  of the three patterns and leaves every state as it is. Surplus marks stay in a label
  only where they follow the space after the third mark: \<open>### # Foo\<close> is the section
  \<open># Foo\<close>.
\<close>

theorem four_marks_skipped:
  "(prefix (u ''####'') (strip line) \<longrightarrow>
      phase_label line = None \<and> section_label line = None \<and> task_text line = None \<and>
      step st line = Inr st) \<and>
   section_label (u ''### # Foo'' @ nl) = Some (u ''# Foo'')"
proof
  show "prefix (u ''####'') (strip line) \<longrightarrow>
      phase_label line = None \<and> section_label line = None \<and> task_text line = None \<and>
      step st line = Inr st"
  proof
    assume four: "prefix (u ''####'') (strip line)"
    have p: "phase_label line = None"
    proof (rule ccontr)
      assume "phase_label line \<noteq> None"
      from phase_line_shape [OF this] four show False
        by (auto simp: u_def prefix_def)
    qed
    have s: "section_label line = None"
    proof (rule ccontr)
      assume "section_label line \<noteq> None"
      from section_line_shape [OF this] four show False
        by (auto simp: u_def prefix_def)
    qed
    have t: "task_text line = None"
    proof (rule ccontr)
      assume "task_text line \<noteq> None"
      from task_line_shape [OF this] four show False
        by (auto simp: u_def prefix_def)
    qed
    from p s t show "phase_label line = None \<and> section_label line = None \<and>
        task_text line = None \<and> step st line = Inr st"
      by (simp add: step_skip)
  qed
  show "section_label (u ''### # Foo'' @ nl) = Some (u ''# Foo'')"
    by (simp add: text_defs match_defs parse_defs)
qed

theorem four_marks_skipped_witness:
  "prefix (u ''####'') (strip (u ''#### Foo'' @ nl)) \<and>
   step \<lparr>phases = [(u ''Phase 1: A'', [])], current_phase = Some (u ''Phase 1: A''),
         current_section = None\<rparr> (u ''#### Foo'' @ nl) =
     Inr \<lparr>phases = [(u ''Phase 1: A'', [])], current_phase = Some (u ''Phase 1: A''),
          current_section = None\<rparr>"
  using four_marks_skipped [of "u ''#### Foo'' @ nl"
      "\<lparr>phases = [(u ''Phase 1: A'', [])], current_phase = Some (u ''Phase 1: A''),
        current_section = None\<rparr>"]
  by (simp add: text_defs)

text \<open>
  C1. The parser can fail on the content of the lines: a task line that follows a phase
  header reads \<open>phases[current_phase][current_section]\<close> with the section of the phase
  before, which the new phase does not hold.
\<close>

theorem parse_checklist_raises:
  "parse_checklist
     (\<lambda>path. Inr (u ''## Phase 1: A'' @ nl @ u ''### S'' @ nl @ u ''## Phase 2: B'' @ nl @
                  u ''- [ ] t'' @ nl))
     (u ''CHECKLIST.md'') = Inl (KeyError (u ''S''))"
  by (simp add: text_defs match_defs parse_defs)

text \<open>
  C2. A phase header leaves \<open>current_section\<close> as it was: after the header of phase 2 the
  current section is still \<open>S\<close> of phase 1, and the task line that follows is not dropped
  but raises \<open>KeyError\<close>.
\<close>

theorem phase_header_keeps_section:
  "run_lines init_state [u ''## Phase 1: A'' @ nl, u ''### S'' @ nl, u ''## Phase 2: B'' @ nl] =
     Inr \<lparr>phases = [(u ''Phase 1: A'', [(u ''S'', [])]), (u ''Phase 2: B'', [])],
          current_phase = Some (u ''Phase 2: B''), current_section = Some (u ''S'')\<rparr> \<and>
   parse_lines [u ''## Phase 1: A'' @ nl, u ''### S'' @ nl, u ''## Phase 2: B'' @ nl,
                u ''- [ ] t'' @ nl] = Inl (KeyError (u ''S''))"
  by (simp add: text_defs match_defs parse_defs)

section \<open>Phase labels as keys\<close>

lemma step_keys_distinct:
  assumes "step st l = Inr st'" "distinct (map fst (phases st))"
  shows "distinct (map fst (phases st'))"
  using assms
  by (auto simp: step_def Let_def set_section_def append_task_def distinct_update
      split: option.splits sum.splits if_splits)

lemma run_lines_keys_distinct:
  "run_lines st ls = Inr st' \<Longrightarrow> distinct (map fst (phases st)) \<Longrightarrow>
     distinct (map fst (phases st'))"
proof (induction ls arbitrary: st)
  case Nil
  then show ?case by simp
next
  case (Cons l ls)
  then obtain st1 where s: "step st l = Inr st1" and r: "run_lines st1 ls = Inr st'"
    by (auto split: sum.splits)
  from step_keys_distinct [OF s Cons.prems(2)] Cons.IH [OF r] show ?case by blast
qed

lemma parse_lines_Inr:
  "parse_lines ls = Inr ph \<longleftrightarrow> (\<exists>st. run_lines init_state ls = Inr st \<and> phases st = ph)"
  by (auto simp: parse_lines_def split: sum.splits)

section \<open>The body of an issue\<close>

text \<open>
  The lines of a text are what lies between its line feeds (\<open>body.split('\n')\<close>); a
  checkbox line is a line that starts with \<open>- [ ] \<close>.
\<close>

definition checkbox_lines :: "pystr \<Rightarrow> pystr list" where
  "checkbox_lines body = filter (prefix (u ''- [ ] '')) (split_char 10 body)"

lemma split_char_line:
  "10 \<notin> set a \<Longrightarrow> split_char 10 (a @ 10 # rest) = a # split_char 10 rest"
  by (induction a) auto

lemma split_char_line_nl:
  "10 \<notin> set a \<Longrightarrow> split_char 10 (a @ nl @ rest) = a # split_char 10 rest"
  by (simp add: nl_def split_char_line)

lemma split_char_nl: "split_char 10 (nl @ rest) = [] # split_char 10 rest"
  by (simp add: nl_def)

lemma add_tasks_concat:
  "add_tasks body tasks = body @ concat (map (\<lambda>t. u ''- [ ] '' @ t @ nl) tasks)"
  by (induction tasks arbitrary: body) auto

lemma split_char_tasks:
  assumes "\<forall>t \<in> set tasks. 10 \<notin> set t"
  shows "split_char 10 (concat (map (\<lambda>t. u ''- [ ] '' @ t @ nl) tasks) @ rest) =
           map (\<lambda>t. u ''- [ ] '' @ t) tasks @ split_char 10 rest"
  using assms
proof (induction tasks)
  case Nil
  show ?case by simp
next
  case (Cons t tasks)
  then have "10 \<notin> set (u ''- [ ] '' @ t)" by (simp add: u_def)
  from split_char_line_nl [OF this] Cons show ?case by simp
qed

lemma checkbox_tasks:
  "filter (prefix (u ''- [ ] '')) (map (\<lambda>t. u ''- [ ] '' @ t) tasks) = map (\<lambda>t. u ''- [ ] '' @ t) tasks"
  by (induction tasks) auto

lemma split_char_head:
  assumes "10 \<notin> set phase" "10 \<notin> set section"
  shows "split_char 10 (body_head phase section @ rest) =
     [u ''## Description'',
      u ''Implement the following tasks for **'' @ section @ u ''** in **'' @ phase @ u ''**.'',
      [],
      u ''## Tasks''] @ split_char 10 rest"
proof -
  have a: "10 \<notin> set (u ''## Description'')" "10 \<notin> set (u ''## Tasks'')"
    by (simp_all add: u_def)
  have b: "10 \<notin> set (u ''Implement the following tasks for **'' @ section @ u ''** in **'' @ phase @ u ''**.'')"
    using assms by (simp add: u_def)
  have "body_head phase section @ rest =
     u ''## Description'' @ nl @
     ((u ''Implement the following tasks for **'' @ section @ u ''** in **'' @ phase @ u ''**.'') @ nl @
      (nl @ (u ''## Tasks'' @ nl @ rest)))"
    by (simp add: body_head_def)
  then show ?thesis
    by (simp only: split_char_line_nl [OF a(1)] split_char_line_nl [OF b] split_char_nl
        split_char_line_nl [OF a(2)] append_Cons append_Nil)
qed

lemma checkbox_lines_tail: "checkbox_lines body_tail = []"
  by (simp add: checkbox_lines_def body_tail_def u_def nl_def)

text \<open>
  C6. The claim fails for a task text that holds a line feed: one task then gives two
  lines that start with \<open>- [ ] \<close>.
\<close>

theorem checkbox_lines_counterexample:
  "length [u ''a'' @ nl @ u ''- [ ] b''] = 1 \<and>
   checkbox_lines (snd (generate_issue_content (u ''Phase 1: A'') (u ''S'')
                          [u ''a'' @ nl @ u ''- [ ] b''])) = [u ''- [ ] a'', u ''- [ ] b'']"
  by (simp add: checkbox_lines_def generate_issue_content_def body_head_def body_tail_def
      u_def nl_def)

text \<open>
  C6, as amended. When the phase label, the section label and the task texts hold no
  line feed, the checkbox lines of the body are \<open>- [ ] \<close> followed by the task text, one
  per task and in the order of the tasks.
\<close>

theorem checkbox_lines_are_tasks:
  assumes "10 \<notin> set phase" and "10 \<notin> set section" and "\<forall>t \<in> set tasks. 10 \<notin> set t"
  shows "checkbox_lines (snd (generate_issue_content phase section tasks)) =
           map (\<lambda>t. u ''- [ ] '' @ t) tasks"
proof -
  have "split_char 10 (snd (generate_issue_content phase section tasks)) =
      [u ''## Description'',
       u ''Implement the following tasks for **'' @ section @ u ''** in **'' @ phase @ u ''**.'',
       [],
       u ''## Tasks''] @ map (\<lambda>t. u ''- [ ] '' @ t) tasks @ split_char 10 body_tail"
    by (simp add: generate_issue_content_def add_tasks_concat split_char_head [OF assms(1,2)]
        split_char_tasks [OF assms(3)])
  moreover have "filter (prefix (u ''- [ ] '')) (split_char 10 body_tail) = []"
    using checkbox_lines_tail by (simp add: checkbox_lines_def)
  moreover have "\<not> prefix (u ''- [ ] '') (u ''## Description'')" "\<not> prefix (u ''- [ ] '') []"
    "\<not> prefix (u ''- [ ] '') (u ''## Tasks'')"
    "\<not> prefix (u ''- [ ] '')
       (u ''Implement the following tasks for **'' @ section @ u ''** in **'' @ phase @ u ''**.'')"
    by (simp_all add: u_def)
  ultimately show ?thesis
    by (simp add: checkbox_lines_def checkbox_tasks)
qed

theorem checkbox_lines_are_tasks_witness:
  "10 \<notin> set (u ''Phase 3: Networking Layer'') \<and> 10 \<notin> set (u ''Connection Pool'') \<and>
   list_all (\<lambda>t. 10 \<notin> set t) [u ''reuse sockets'', u ''close idle connections''] \<and>
   checkbox_lines (snd (generate_issue_content (u ''Phase 3: Networking Layer'')
       (u ''Connection Pool'') [u ''reuse sockets'', u ''close idle connections''])) =
     [u ''- [ ] reuse sockets'', u ''- [ ] close idle connections'']"
  using checkbox_lines_are_tasks [of "u ''Phase 3: Networking Layer''" "u ''Connection Pool''"
      "[u ''reuse sockets'', u ''close idle connections'']"]
  by (simp add: u_def)

section \<open>The tasks of a section\<close>

text \<open>\<open>phases[p][s]\<close>, when both keys are there.\<close>

definition entry :: "phases \<Rightarrow> pystr \<Rightarrow> pystr \<Rightarrow> pystr list option" where
  "entry phs p s = (case map_of phs p of None \<Rightarrow> None | Some secs \<Rightarrow> map_of secs s)"

text \<open>
  A checked task line: stripped, it reads \<open>- [c] \<close> with a mark \<open>c\<close> that is not a space,
  as \<open>- [x] \<close> does.
\<close>

fun checked :: "pystr \<Rightarrow> bool" where
  "checked (a # b # c # d # e # f # rest) =
     (a = 45 \<and> b = 32 \<and> c = 91 \<and> d \<noteq> 32 \<and> e = 93 \<and> f = 32)"
| "checked s = False"

definition checked_line :: "pystr \<Rightarrow> bool" where
  "checked_line line = checked (strip line)"

lemma entry_update_other: "q \<noteq> p \<Longrightarrow> entry (AList.update q v phs) p s = entry phs p s"
  by (simp add: entry_def update_conv')

lemma entry_update_same: "entry (AList.update p secs phs) p s = map_of secs s"
  by (simp add: entry_def update_conv')

lemma set_section_entry:
  assumes "set_section phs q r = Inr phs'"
  shows "entry phs' p s = (if q = p \<and> r = s then Some [] else entry phs p s)"
  using assms
  by (auto simp: set_section_def entry_def update_conv' split: option.splits if_splits)

lemma append_task_entry:
  assumes "append_task phs q r t = Inr phs'"
  shows "entry phs' p s = (if q = p \<and> r = s then Some (the (entry phs p s) @ [t]) else entry phs p s)"
  using assms
  by (auto simp: append_task_def entry_def update_conv' split: option.splits if_splits)

lemma append_task_ok:
  assumes "entry phs p s = Some ts"
  shows "\<exists>phs'. append_task phs p s t = Inr phs'"
  using assms by (auto simp: append_task_def entry_def split: option.splits)

lemma set_section_ok:
  assumes "map_of phs p = Some secs"
  shows "\<exists>phs'. set_section phs p s = Inr phs'"
  using assms by (simp add: set_section_def)

lemma set_section_keeps_phase:
  assumes "set_section phs q r = Inr phs'"
  shows "map_of phs' p \<noteq> None \<longleftrightarrow> map_of phs p \<noteq> None"
  using assms by (auto simp: set_section_def update_conv' split: option.splits if_splits)

lemma append_task_keeps_phase:
  assumes "append_task phs q r t = Inr phs'"
  shows "map_of phs' p \<noteq> None \<longleftrightarrow> map_of phs p \<noteq> None"
  using assms by (auto simp: append_task_def update_conv' split: option.splits if_splits)

text \<open>What a step that succeeds does to the current phase, the current section and an entry.\<close>

lemma step_effect:
  assumes "step st l = Inr st'"
  shows "current_phase st' = (case phase_label l of Some q \<Rightarrow> Some q | None \<Rightarrow> current_phase st)"
    and "current_section st' =
      (if section_label l \<noteq> None \<and> truthy (current_phase st) then section_label l
       else current_section st)"
proof -
  consider (ph) q where "phase_label l = Some q"
    | (sec) r where "phase_label l = None" "section_label l = Some r" "truthy (current_phase st)"
    | (tsk) t where "phase_label l = None" "section_label l = None" "task_text l = Some t"
        "truthy (current_phase st)" "truthy (current_section st)"
    | (other) "phase_label l = None" "section_label l = None \<or> \<not> truthy (current_phase st)"
        "task_text l = None \<or> \<not> truthy (current_phase st) \<or> \<not> truthy (current_section st)"
    using section_excludes [of l] by (cases "phase_label l"; cases "section_label l"; cases "task_text l") auto
  then have "current_phase st' = (case phase_label l of Some q \<Rightarrow> Some q | None \<Rightarrow> current_phase st) \<and>
    current_section st' =
      (if section_label l \<noteq> None \<and> truthy (current_phase st) then section_label l
       else current_section st)"
  proof cases
    case ph
    with assms step_phase [OF ph, of st] phase_excludes [of l] show ?thesis by auto
  next
    case sec
    with assms step_section [OF sec(2,3)] show ?thesis by (auto split: sum.splits)
  next
    case tsk
    with assms step_task [OF tsk(3,4,5)] show ?thesis by (auto split: sum.splits)
  next
    case other
    with assms step_skip [OF other] show ?thesis by auto
  qed
  then show "current_phase st' = (case phase_label l of Some q \<Rightarrow> Some q | None \<Rightarrow> current_phase st)"
    and "current_section st' =
      (if section_label l \<noteq> None \<and> truthy (current_phase st) then section_label l
       else current_section st)"
    by simp_all
qed

lemma step_keeps_entry:
  assumes "step st l = Inr st'" and "phase_label l \<noteq> Some p"
    and "current_phase st = Some p \<Longrightarrow>
           section_label l \<noteq> Some s \<and> (current_section st \<noteq> Some s \<or> task_text l = None)"
  shows "entry (phases st') p s = entry (phases st) p s"
proof -
  consider (ph) q where "phase_label l = Some q"
    | (sec) r where "phase_label l = None" "section_label l = Some r" "truthy (current_phase st)"
    | (tsk) t where "phase_label l = None" "section_label l = None" "task_text l = Some t"
        "truthy (current_phase st)" "truthy (current_section st)"
    | (other) "phase_label l = None" "section_label l = None \<or> \<not> truthy (current_phase st)"
        "task_text l = None \<or> \<not> truthy (current_phase st) \<or> \<not> truthy (current_section st)"
    using section_excludes [of l] by (cases "phase_label l"; cases "section_label l"; cases "task_text l") auto
  then show ?thesis
  proof cases
    case ph
    with assms(1,2) step_phase [OF ph, of st] show ?thesis
      by (auto simp: entry_update_other)
  next
    case sec
    from sec(3) obtain cp where cp: "current_phase st = Some cp" by (cases "current_phase st") auto
    from assms(1) step_section [OF sec(2,3)] cp obtain phs' where
      s: "set_section (phases st) cp r = Inr phs'" and st': "phases st' = phs'"
      by (auto split: sum.splits)
    from assms(3) cp sec(2) have "\<not> (cp = p \<and> r = s)" by auto
    with set_section_entry [OF s, of p s] st' show ?thesis by auto
  next
    case tsk
    from tsk(4) obtain cp where cp: "current_phase st = Some cp" by (cases "current_phase st") auto
    from tsk(5) obtain cs where cs: "current_section st = Some cs" by (cases "current_section st") auto
    from assms(1) step_task [OF tsk(3,4,5)] cp cs obtain phs' where
      a: "append_task (phases st) cp cs t = Inr phs'" and st': "phases st' = phs'"
      by (auto split: sum.splits)
    from assms(3) cp cs tsk(3) have "\<not> (cp = p \<and> cs = s)" by auto
    with append_task_entry [OF a, of p s] st' show ?thesis by auto
  next
    case other
    with assms(1) step_skip [OF other] show ?thesis by auto
  qed
qed

lemma run_lines_append_Inr:
  "run_lines st (xs @ ys) = Inr st'' \<longleftrightarrow>
     (\<exists>st'. run_lines st xs = Inr st' \<and> run_lines st' ys = Inr st'')"
  by (auto simp: run_lines_append split: sum.splits)

lemma run_lines_Cons_Inr:
  "run_lines st (l # ls) = Inr st'' \<longleftrightarrow> (\<exists>st'. step st l = Inr st' \<and> run_lines st' ls = Inr st'')"
  by (auto split: sum.splits)

lemma run_keeps_phase:
  "run_lines st ls = Inr st' \<Longrightarrow> \<forall>l \<in> set ls. phase_label l = None \<Longrightarrow>
     current_phase st' = current_phase st"
proof (induction ls arbitrary: st)
  case Nil
  then show ?case by simp
next
  case (Cons l ls)
  from Cons.prems(1) obtain st1 where s: "step st l = Inr st1" and r: "run_lines st1 ls = Inr st'"
    by (auto split: sum.splits)
  from step_effect(1) [OF s] Cons.prems(2) have "current_phase st1 = current_phase st" by simp
  with Cons.IH [OF r] Cons.prems(2) show ?case by simp
qed

text \<open>
  Inside a section: lines that are no headers. Each unchecked task line is appended to
  the entry of the current phase and section; nothing can fail there.
\<close>

lemma body_run:
  assumes "current_phase st = Some p" "p \<noteq> []" "current_section st = Some s" "s \<noteq> []"
    and "entry (phases st) p s = Some ts"
    and "\<forall>l \<in> set body. phase_label l = None \<and> section_label l = None"
  shows "\<exists>st'. run_lines st body = Inr st' \<and> current_phase st' = Some p \<and>
           current_section st' = Some s \<and>
           entry (phases st') p s = Some (ts @ List.map_filter task_text body)"
  using assms
proof (induction body arbitrary: st ts)
  case Nil
  then show ?case by simp
next
  case (Cons l body)
  from Cons.prems(6) have l: "phase_label l = None" "section_label l = None" by simp_all
  show ?case
  proof (cases "task_text l")
    case None
    with l have "step st l = Inr st" by (simp add: step_skip)
    moreover from Cons.IH [of st ts] Cons.prems
    obtain st' where "run_lines st body = Inr st'" "current_phase st' = Some p"
      "current_section st' = Some s"
      "entry (phases st') p s = Some (ts @ List.map_filter task_text body)"
      by auto
    ultimately show ?thesis using None by auto
  next
    case (Some t)
    from append_task_ok [OF Cons.prems(5), of t] obtain phs' where
      a: "append_task (phases st) p s t = Inr phs'" by blast
    from Cons.prems(1-4) have tr: "truthy (current_phase st)" "truthy (current_section st)"
      by simp_all
    from step_task [OF Some tr] a Cons.prems(1,3)
    have s1: "step st l = Inr (st\<lparr>phases := phs'\<rparr>)" by simp
    from append_task_entry [OF a, of p s] Cons.prems(5)
    have e: "entry (phases (st\<lparr>phases := phs'\<rparr>)) p s = Some (ts @ [t])" by simp
    from Cons.IH [of "st\<lparr>phases := phs'\<rparr>" "ts @ [t]"] Cons.prems e
    obtain st' where "run_lines (st\<lparr>phases := phs'\<rparr>) body = Inr st'" "current_phase st' = Some p"
      "current_section st' = Some s"
      "entry (phases st') p s = Some ((ts @ [t]) @ List.map_filter task_text body)"
      by auto
    with s1 Some show ?thesis by auto
  qed
qed

text \<open>
  After the section: as long as no header opens the phase label again, and none opens the
  section label again while the phase is still the current one, the entry stays.
\<close>

lemma post_run:
  assumes "run_lines st ls = Inr st'"
    and "entry (phases st) p s = Some ts"
    and "current_phase st = Some p \<Longrightarrow> current_section st \<noteq> Some s"
    and "\<forall>l \<in> set ls. phase_label l \<noteq> Some p"
    and "current_phase st = Some p \<Longrightarrow>
           \<forall>l \<in> set (takeWhile (\<lambda>l. phase_label l = None) ls). section_label l \<noteq> Some s"
  shows "entry (phases st') p s = Some ts"
  using assms
proof (induction ls arbitrary: st)
  case Nil
  then show ?case by simp
next
  case (Cons l ls)
  from Cons.prems(1) obtain st1 where s: "step st l = Inr st1" and r: "run_lines st1 ls = Inr st'"
    by (auto split: sum.splits)
  from Cons.prems(4) have np: "phase_label l \<noteq> Some p" by simp
  have sec: "current_phase st = Some p \<Longrightarrow> section_label l \<noteq> Some s"
  proof (cases "phase_label l")
    case None
    assume "current_phase st = Some p"
    from Cons.prems(5) [OF this] None show ?thesis by simp
  next
    case (Some q)
    with phase_excludes [of l] show ?thesis by simp
  qed
  have "entry (phases st1) p s = entry (phases st) p s"
    using s np sec Cons.prems(3) by (intro step_keeps_entry) auto
  with Cons.prems(2) have e1: "entry (phases st1) p s = Some ts" by simp
  have c1: "current_phase st1 = Some p \<Longrightarrow> current_section st1 \<noteq> Some s"
  proof -
    assume a: "current_phase st1 = Some p"
    with step_effect(1) [OF s] np have pl: "phase_label l = None" and cp: "current_phase st = Some p"
      by (auto split: option.splits)
    from step_effect(2) [OF s] sec [OF cp] Cons.prems(3) [OF cp]
    show "current_section st1 \<noteq> Some s" by (auto split: if_splits)
  qed
  have t1: "current_phase st1 = Some p \<Longrightarrow>
           \<forall>l \<in> set (takeWhile (\<lambda>l. phase_label l = None) ls). section_label l \<noteq> Some s"
  proof -
    assume a: "current_phase st1 = Some p"
    with step_effect(1) [OF s] np have pl: "phase_label l = None" and cp: "current_phase st = Some p"
      by (auto split: option.splits)
    from Cons.prems(5) [OF cp] pl
    show "\<forall>l \<in> set (takeWhile (\<lambda>l. phase_label l = None) ls). section_label l \<noteq> Some s"
      by simp
  qed
  from Cons.prems(4) have "\<forall>l \<in> set ls. phase_label l \<noteq> Some p" by simp
  from Cons.IH [OF r e1 c1 this t1] show ?case by simp
qed

lemma checked_shape:
  "checked s \<Longrightarrow> \<exists>d rest. s = 45 # 32 # 91 # d # 93 # 32 # rest \<and> d \<noteq> 32"
  by (cases s rule: checked.cases) auto

lemma checked_step:
  assumes "checked_line l"
  shows "step st l = Inr st"
proof -
  from assms checked_shape obtain d rest where
    s: "strip l = 45 # 32 # 91 # d # 93 # 32 # rest" and d: "d \<noteq> 32"
    unfolding checked_line_def by blast
  have p: "phase_label l = None"
  proof (rule ccontr)
    assume "phase_label l \<noteq> None"
    from phase_line_shape [OF this] s show False by (auto simp: u_def prefix_def)
  qed
  have c: "section_label l = None"
  proof (rule ccontr)
    assume "section_label l \<noteq> None"
    from section_line_shape [OF this] s show False by (auto simp: u_def prefix_def)
  qed
  have t: "task_text l = None"
  proof (rule ccontr)
    assume "task_text l \<noteq> None"
    from task_line_shape [OF this] s d show False by (auto simp: u_def prefix_def)
  qed
  from p c t show ?thesis by (simp add: step_skip)
qed

lemma run_lines_without_checked:
  "run_lines st (filter (\<lambda>l. \<not> checked_line l) ls) = run_lines st ls"
  by (induction ls arbitrary: st) (auto simp: checked_step split: sum.splits)

text \<open>
  C4. The claim, read for every document, fails where a section label comes twice in a
  phase: the second header writes a new empty list, and the task of the first block is
  gone from the entry.
\<close>

theorem unchecked_tasks_counterexample:
  "task_text (u ''- [ ] t1'' @ nl) = Some (u ''t1'') \<and>
   parse_lines [u ''## Phase 1: A'' @ nl, u ''### S'' @ nl, u ''- [ ] t1'' @ nl,
                u ''### S'' @ nl, u ''- [ ] t2'' @ nl] =
     Inr [(u ''Phase 1: A'', [(u ''S'', [u ''t2''])])]"
  by (simp add: text_defs match_defs parse_defs)

text \<open>
  C4, as amended. Take a section header \<open>hs\<close> with label \<open>s\<close> in the phase opened by the
  header \<open>hp\<close> with label \<open>p\<close>, in a document that the parser reads without an error. If
  no later header opens the label \<open>p\<close> again, and none opens the label \<open>s\<close> again before
  the next phase header, then the entry of \<open>p\<close> and \<open>s\<close> holds the texts of the unchecked
  task lines between \<open>hs\<close> and the next header, in their order. Checked task lines
  (\<open>- [x] \<close>, or any mark but a space) count for nothing: without them the result is the
  same.
\<close>

theorem unchecked_tasks_in_entry:
  assumes "phase_label hp = Some p"
    and "\<forall>l \<in> set mid. phase_label l = None"
    and "section_label hs = Some s"
    and "\<forall>l \<in> set rest. phase_label l \<noteq> Some p"
    and "\<forall>l \<in> set (takeWhile (\<lambda>l. phase_label l = None) rest). section_label l \<noteq> Some s"
    and "parse_lines (pre @ [hp] @ mid @ [hs] @ rest) = Inr phs"
  shows "entry phs p s =
           Some (List.map_filter task_text
                   (takeWhile (\<lambda>l. phase_label l = None \<and> section_label l = None) rest)) \<and>
         parse_lines (filter (\<lambda>l. \<not> checked_line l) (pre @ [hp] @ mid @ [hs] @ rest)) = Inr phs"
proof
  define plain where "plain = (\<lambda>l. phase_label l = None \<and> section_label l = None)"
  define body where "body = takeWhile plain rest"
  define post where "post = dropWhile plain rest"
  have rest: "rest = body @ post" by (simp add: body_def post_def)
  from assms(6) obtain stF where
    run: "run_lines init_state (pre @ [hp] @ mid @ [hs] @ body @ post) = Inr stF"
    and phs: "phases stF = phs"
    unfolding rest by (auto simp: parse_lines_Inr)
  from run obtain st1 where r1: "run_lines init_state pre = Inr st1"
    and a1: "run_lines st1 ([hp] @ mid @ [hs] @ body @ post) = Inr stF"
    using run_lines_append_Inr by blast
  from a1 obtain st2 where s2: "step st1 hp = Inr st2"
    and a2: "run_lines st2 (mid @ [hs] @ body @ post) = Inr stF"
    by (auto split: sum.splits)
  from a2 obtain st3 where r3: "run_lines st2 mid = Inr st3"
    and a3: "run_lines st3 ([hs] @ body @ post) = Inr stF"
    using run_lines_append_Inr by blast
  from a3 obtain st4 where s4: "step st3 hs = Inr st4"
    and r5: "run_lines st4 (body @ post) = Inr stF"
    by (auto split: sum.splits)
  have pne: "p \<noteq> []" using assms(1) by (rule phase_label_nonempty)
  have sne: "s \<noteq> []" using assms(3) by (rule section_label_nonempty)
  from step_effect(1) [OF s2] assms(1) have "current_phase st2 = Some p" by simp
  with run_keeps_phase [OF r3 assms(2)] have cp3: "current_phase st3 = Some p" by simp
  with pne have tr3: "truthy (current_phase st3)" by simp
  from s4 step_section [OF assms(3) tr3] cp3 obtain phs4 where
    ss: "set_section (phases st3) p s = Inr phs4"
    and st4: "st4 = st3\<lparr>current_section := Some s, phases := phs4\<rparr>"
    by (auto split: sum.splits)
  from set_section_entry [OF ss, of p s] st4 cp3
  have b4: "current_phase st4 = Some p" "current_section st4 = Some s"
    "entry (phases st4) p s = Some []"
    by simp_all
  have "\<forall>l \<in> set body. phase_label l = None \<and> section_label l = None"
    unfolding body_def plain_def by (auto dest: set_takeWhileD)
  from body_run [OF b4(1) pne b4(2) sne b4(3) this] obtain st5 where
    r5a: "run_lines st4 body = Inr st5" and cp5: "current_phase st5 = Some p"
    and cs5: "current_section st5 = Some s"
    and e5: "entry (phases st5) p s = Some (List.map_filter task_text body)"
    by auto
  from r5 r5a have r6: "run_lines st5 post = Inr stF"
    by (simp add: run_lines_append)
  have nophase: "\<forall>l \<in> set post. phase_label l \<noteq> Some p"
    using assms(4) unfolding rest by simp
  have "takeWhile (\<lambda>l. phase_label l = None) rest = body @ takeWhile (\<lambda>l. phase_label l = None) post"
    unfolding rest by (rule takeWhile_append2) (auto simp: body_def plain_def dest: set_takeWhileD)
  with assms(5) have nosec: "\<forall>l \<in> set (takeWhile (\<lambda>l. phase_label l = None) post).
      section_label l \<noteq> Some s"
    by simp
  have "entry (phases stF) p s = Some (List.map_filter task_text body)"
  proof (cases post)
    case Nil
    with r6 e5 show ?thesis by simp
  next
    case (Cons h post')
    from Cons have "\<not> plain h" unfolding post_def
      by (metis hd_dropWhile list.sel(1) list.distinct(1))
    then have hdr: "phase_label h \<noteq> None \<or> section_label h \<noteq> None" by (simp add: plain_def)
    then have tn: "task_text h = None"
      using phase_excludes [of h] section_excludes [of h] by blast
    from r6 Cons obtain st6 where s6: "step st5 h = Inr st6" and r7: "run_lines st6 post' = Inr stF"
      by (auto split: sum.splits)
    from nophase Cons have np: "phase_label h \<noteq> Some p" by simp
    have hs: "section_label h \<noteq> Some s"
    proof (cases "phase_label h")
      case None
      with nosec Cons show ?thesis by simp
    next
      case (Some q)
      with phase_excludes [of h] show ?thesis by simp
    qed
    have "entry (phases st6) p s = entry (phases st5) p s"
      using s6 np hs tn by (intro step_keeps_entry) auto
    with e5 have e6: "entry (phases st6) p s = Some (List.map_filter task_text body)" by simp
    have c6: "current_phase st6 = Some p \<Longrightarrow> current_section st6 \<noteq> Some s"
    proof -
      assume "current_phase st6 = Some p"
      with step_effect(1) [OF s6] np have pl: "phase_label h = None"
        by (auto split: option.splits)
      with hdr have "section_label h \<noteq> None" by simp
      with step_effect(2) [OF s6] cp5 pne hs show "current_section st6 \<noteq> Some s" by simp
    qed
    have t6: "current_phase st6 = Some p \<Longrightarrow>
        \<forall>l \<in> set (takeWhile (\<lambda>l. phase_label l = None) post'). section_label l \<noteq> Some s"
    proof -
      assume "current_phase st6 = Some p"
      with step_effect(1) [OF s6] np have pl: "phase_label h = None"
        by (auto split: option.splits)
      with nosec Cons show ?thesis by simp
    qed
    from nophase Cons have "\<forall>l \<in> set post'. phase_label l \<noteq> Some p" by simp
    from post_run [OF r7 e6 c6 this t6] show ?thesis by simp
  qed
  with phs show "entry phs p s =
           Some (List.map_filter task_text
                   (takeWhile (\<lambda>l. phase_label l = None \<and> section_label l = None) rest))"
    by (simp add: body_def plain_def)
next
  from assms(6) show "parse_lines (filter (\<lambda>l. \<not> checked_line l) (pre @ [hp] @ mid @ [hs] @ rest)) = Inr phs"
    by (simp only: parse_lines_def run_lines_without_checked)
qed

theorem unchecked_tasks_in_entry_witness:
  "parse_lines ([u ''# Checklist'' @ nl] @ [u ''## Phase 1: A'' @ nl] @ [u ''intro'' @ nl] @ [u ''### S'' @ nl] @
       [u ''- [ ] t1'' @ nl, u ''- [x] done'' @ nl, u ''  - [ ] t2  '' @ nl, u ''### T'' @ nl,
        u ''- [ ] t3'' @ nl, u ''## Phase 2: B'' @ nl, u ''### S'' @ nl, u ''- [ ] t4'' @ nl]) =
     Inr [(u ''Phase 1: A'', [(u ''S'', [u ''t1'', u ''t2'']), (u ''T'', [u ''t3''])]),
          (u ''Phase 2: B'', [(u ''S'', [u ''t4''])])] \<and>
   List.map_filter task_text (takeWhile (\<lambda>l. phase_label l = None \<and> section_label l = None)
       [u ''- [ ] t1'' @ nl, u ''- [x] done'' @ nl, u ''  - [ ] t2  '' @ nl, u ''### T'' @ nl,
        u ''- [ ] t3'' @ nl, u ''## Phase 2: B'' @ nl, u ''### S'' @ nl, u ''- [ ] t4'' @ nl]) = [u ''t1'', u ''t2''] \<and>
   entry [(u ''Phase 1: A'', [(u ''S'', [u ''t1'', u ''t2'']), (u ''T'', [u ''t3''])]),
          (u ''Phase 2: B'', [(u ''S'', [u ''t4''])])]
     (u ''Phase 1: A'') (u ''S'') = Some [u ''t1'', u ''t2''] \<and>
   parse_lines (filter (\<lambda>l. \<not> checked_line l) ([u ''# Checklist'' @ nl] @ [u ''## Phase 1: A'' @ nl] @ [u ''intro'' @ nl] @ [u ''### S'' @ nl] @
       [u ''- [ ] t1'' @ nl, u ''- [x] done'' @ nl, u ''  - [ ] t2  '' @ nl, u ''### T'' @ nl,
        u ''- [ ] t3'' @ nl, u ''## Phase 2: B'' @ nl, u ''### S'' @ nl, u ''- [ ] t4'' @ nl])) =
     Inr [(u ''Phase 1: A'', [(u ''S'', [u ''t1'', u ''t2'']), (u ''T'', [u ''t3''])]),
          (u ''Phase 2: B'', [(u ''S'', [u ''t4''])])]"
proof -
  have h1: "phase_label (u ''## Phase 1: A'' @ nl) = Some (u ''Phase 1: A'')"
    by (simp add: text_defs match_defs parse_defs)
  have h2: "\<forall>l \<in> set [u ''intro'' @ nl]. phase_label l = None"
    by (simp add: text_defs match_defs parse_defs)
  have h3: "section_label (u ''### S'' @ nl) = Some (u ''S'')"
    by (simp add: text_defs match_defs parse_defs)
  have phase_labels: "map phase_label [u ''- [ ] t1'' @ nl, u ''- [x] done'' @ nl, u ''  - [ ] t2  '' @ nl, u ''### T'' @ nl,
        u ''- [ ] t3'' @ nl, u ''## Phase 2: B'' @ nl, u ''### S'' @ nl, u ''- [ ] t4'' @ nl] =
      [None, None, None, None, None, Some (u ''Phase 2: B''), None, None]"
    by (simp add: text_defs match_defs parse_defs)
  have section_labels: "map section_label [u ''- [ ] t1'' @ nl, u ''- [x] done'' @ nl, u ''  - [ ] t2  '' @ nl, u ''### T'' @ nl,
        u ''- [ ] t3'' @ nl, u ''## Phase 2: B'' @ nl, u ''### S'' @ nl, u ''- [ ] t4'' @ nl] =
      [None, None, None, Some (u ''T''), None, None, Some (u ''S''), None]"
    by (simp add: text_defs match_defs parse_defs)
  have task_texts: "map task_text [u ''- [ ] t1'' @ nl, u ''- [x] done'' @ nl, u ''  - [ ] t2  '' @ nl, u ''### T'' @ nl,
        u ''- [ ] t3'' @ nl, u ''## Phase 2: B'' @ nl, u ''### S'' @ nl, u ''- [ ] t4'' @ nl] =
      [Some (u ''t1''), None, Some (u ''t2''), None, Some (u ''t3''), None, None, Some (u ''t4'')]"
    by (simp add: text_defs match_defs parse_defs)
  have h4: "\<forall>l \<in> set [u ''- [ ] t1'' @ nl, u ''- [x] done'' @ nl, u ''  - [ ] t2  '' @ nl, u ''### T'' @ nl,
        u ''- [ ] t3'' @ nl, u ''## Phase 2: B'' @ nl, u ''### S'' @ nl, u ''- [ ] t4'' @ nl]. phase_label l \<noteq> Some (u ''Phase 1: A'')"
    using phase_labels by (simp add: u_def)
  have h5: "\<forall>l \<in> set (takeWhile (\<lambda>l. phase_label l = None) [u ''- [ ] t1'' @ nl, u ''- [x] done'' @ nl, u ''  - [ ] t2  '' @ nl, u ''### T'' @ nl,
        u ''- [ ] t3'' @ nl, u ''## Phase 2: B'' @ nl, u ''### S'' @ nl, u ''- [ ] t4'' @ nl]). section_label l \<noteq> Some (u ''S'')"
    using phase_labels section_labels by (simp add: u_def)
  have h6: "parse_lines ([u ''# Checklist'' @ nl] @ [u ''## Phase 1: A'' @ nl] @ [u ''intro'' @ nl] @ [u ''### S'' @ nl] @
       [u ''- [ ] t1'' @ nl, u ''- [x] done'' @ nl, u ''  - [ ] t2  '' @ nl, u ''### T'' @ nl,
        u ''- [ ] t3'' @ nl, u ''## Phase 2: B'' @ nl, u ''### S'' @ nl, u ''- [ ] t4'' @ nl]) =
     Inr [(u ''Phase 1: A'', [(u ''S'', [u ''t1'', u ''t2'']), (u ''T'', [u ''t3''])]),
          (u ''Phase 2: B'', [(u ''S'', [u ''t4''])])]"
    by (simp add: text_defs match_defs parse_defs)
  have m: "List.map_filter task_text (takeWhile (\<lambda>l. phase_label l = None \<and> section_label l = None)
       [u ''- [ ] t1'' @ nl, u ''- [x] done'' @ nl, u ''  - [ ] t2  '' @ nl, u ''### T'' @ nl,
        u ''- [ ] t3'' @ nl, u ''## Phase 2: B'' @ nl, u ''### S'' @ nl, u ''- [ ] t4'' @ nl]) = [u ''t1'', u ''t2'']"
    using phase_labels section_labels task_texts by simp
  from unchecked_tasks_in_entry [OF h1 h2 h3 h4 h5 h6] h6 m show ?thesis
    by (simp only: simp_thms)
qed

section \<open>A phase label that comes again\<close>





















section \<open>Runs on a standard output that takes every line\<close>

lemma print_lines_accepted:
  assumes "\<forall>h t. con h t = None"
  shows "print_lines con w ls = (None, w\<lparr>printed := printed w @ ls\<rparr>)"
  using assms by (induction ls arbitrary: w) auto


lemma print_lines_prefix: "prefix (printed w) (printed (snd (print_lines con w ls)))"
proof (induction ls arbitrary: w)
  case Nil
  show ?case by simp
next
  case (Cons l ls)
  show ?case
  proof (cases "con (printed w) l")
    case None
    with Cons [of "w\<lparr>printed := printed w @ [l]\<rparr>"] show ?thesis
      by (auto elim: prefix_order.trans [rotated])
  next
    case (Some e)
    then show ?thesis by simp
  qed
qed

text \<open>The two lines that report a finished tracker command, and the command of an issue.\<close>

definition report_lines :: "pystr \<Rightarrow> completed \<Rightarrow> pystr list" where
  "report_lines title result =
     (if returncode result = 0
      then [[0x2705] @ u '' Created issue: '' @ title, u ''   URL: '' @ strip (stdout result)]
      else [[0x274C] @ u '' Failed to create issue: '' @ title, u ''   Error: '' @ stderr result])"

definition todo_cmd :: "pystr \<times> pystr \<times> pystr \<Rightarrow> pystr list" where
  "todo_cmd i = (case i of (title, body, phase) \<Rightarrow> issue_cmd title body None)"

lemma create_github_issue_accepted:
  assumes "\<forall>h t. con h t = None" and "gh (invoked w) (issue_cmd title body labels) = Inr r"
  shows "create_github_issue gh con w title body labels =
     (Inr (returncode r = 0),
      w\<lparr>invoked := invoked w @ [issue_cmd title body labels],
        printed := printed w @ report_lines title r\<rparr>)"
  using assms
  by (simp add: create_github_issue_def Let_def print_lines_accepted report_lines_def)

text \<open>
  The loop over the issues, when every line is printed and every command runs to an exit
  status: the \<open>i\<close>-th command is the command of the \<open>i\<close>-th issue, the tracker has been asked
  the commands of the issues before it, and its answer is reported.
\<close>

definition answer :: "tracker \<Rightarrow> pystr list list \<Rightarrow> (pystr \<times> pystr \<times> pystr) list \<Rightarrow> nat \<Rightarrow> completed" where
  "answer gh h todo i = projr (gh (h @ map todo_cmd (take i todo)) (todo_cmd (todo ! i)))"

definition reports :: "tracker \<Rightarrow> pystr list list \<Rightarrow> (pystr \<times> pystr \<times> pystr) list \<Rightarrow> pystr list" where
  "reports gh h todo =
     concat (map (\<lambda>i. report_lines (fst (todo ! i)) (answer gh h todo i)) [0..<length todo])"

lemma reports_Nil: "reports gh h [] = []"
  by (simp add: reports_def)

lemma reports_Cons:
  "reports gh h (x # rest) =
     report_lines (fst x) (projr (gh h (todo_cmd x))) @ reports gh (h @ [todo_cmd x]) rest"
proof -
  have "[0..<length (x # rest)] = 0 # map Suc [0..<length rest]"
    by (simp add: upt_conv_Cons map_Suc_upt del: upt_Suc)
  then show ?thesis
    by (simp add: reports_def answer_def comp_def)
qed

lemma create_all_accepted:
  assumes "\<forall>h t. con h t = None" and "\<forall>h c. \<exists>r. gh h c = Inr r"
  shows "create_all gh con w todo =
     (None, w\<lparr>invoked := invoked w @ map todo_cmd todo,
              printed := printed w @ reports gh (invoked w) todo\<rparr>)"
proof (induction todo arbitrary: w)
  case Nil
  show ?case by (simp add: reports_Nil)
next
  case (Cons x todo)
  obtain title body phase where x: "x = (title, body, phase)" by (cases x) auto
  from assms(2) obtain r where r: "gh (invoked w) (issue_cmd title body None) = Inr r" by blast
  from create_github_issue_accepted [of con gh w title body None r, OF assms(1) r]
  show ?case
    by (simp add: x Cons.IH reports_Cons todo_cmd_def r)
qed



lemma main_list:
  assumes "2 \<le> length argv" "u ''--list'' \<in> set argv" "parse_checklist fs (argv ! 1) = Inr phs"
    and "\<forall>h t. con h t = None"
  shows "main fs gh con argv = (Returned, \<lparr>invoked = [], printed = summary phs\<rparr>)"
  using assms by (simp add: main_def Let_def print_lines_accepted)

lemma main_dry_run:
  assumes "2 \<le> length argv" "u ''--list'' \<notin> set argv" "u ''--create'' \<notin> set argv"
    and "parse_checklist fs (argv ! 1) = Inr phs"
    and "\<forall>h t. con h t = None"
  shows "main fs gh con argv =
     (Returned, \<lparr>invoked = [],
                printed = found_lines (issues_to_create (get_phase_filter argv) phs) @ dry_run_lines\<rparr>)"
  using assms by (simp add: main_def Let_def print_lines_accepted)

lemma main_create:
  assumes "2 \<le> length argv" "u ''--list'' \<notin> set argv" "u ''--create'' \<in> set argv"
    and "parse_checklist fs (argv ! 1) = Inr phs"
    and "\<forall>h t. con h t = None" and "\<forall>h c. \<exists>r. gh h c = Inr r"
  shows "main fs gh con argv =
     (Returned,
      \<lparr>invoked = map todo_cmd (issues_to_create (get_phase_filter argv) phs),
       printed = found_lines (issues_to_create (get_phase_filter argv) phs) @
                 [creating_line (issues_to_create (get_phase_filter argv) phs)] @
                 reports gh [] (issues_to_create (get_phase_filter argv) phs)\<rparr>)"
  using assms
  by (simp add: main_def Let_def print_lines_accepted create_all_accepted)

section \<open>Submitting the issues\<close>

lemmas io_defs = main_def Let_def get_phase_filter_def index_of_def skipped_def
  create_github_issue_def generate_issue_content_def issue_title_def split_char_first
  found_lines_def creating_line_def dry_run_lines_def usage_lines_def summary_def
  phase_tasks_def str_nat.simps issue_cmd_def body_head_def body_tail_def




section \<open>How a run ends\<close>







section \<open>The phase filter\<close>

definition phase_keys :: "phases \<Rightarrow> bool" where
  "phase_keys phs = list_all (\<lambda>(phase, secs). prefix (u ''Phase '') phase) phs"

lemma phase_keys_update:
  "phase_keys phs \<Longrightarrow> prefix (u ''Phase '') k \<Longrightarrow> phase_keys (AList.update k v phs)"
  by (induction phs) (auto simp: phase_keys_def)

lemma phase_keys_map_of:
  "phase_keys phs \<Longrightarrow> map_of phs k = Some v \<Longrightarrow> prefix (u ''Phase '') k"
  by (induction phs) (auto simp: phase_keys_def split: if_splits)

lemma step_phase_keys:
  assumes "step st l = Inr st'" "phase_keys (phases st)"
  shows "phase_keys (phases st')"
proof (cases "phase_label l")
  case (Some p)
  with assms step_phase [OF Some, of st] phase_label_prefix [OF Some] show ?thesis
    by (auto simp: phase_keys_update)
next
  case None
  then have "re_match phase_re (strip l) = None" by (simp add: phase_label_None)
  with assms show ?thesis
    by (auto simp: step_def Let_def set_section_def append_task_def
        split: option.splits sum.splits if_splits
        intro!: phase_keys_update dest: phase_keys_map_of)
qed

lemma run_lines_phase_keys:
  "run_lines st ls = Inr st' \<Longrightarrow> phase_keys (phases st) \<Longrightarrow> phase_keys (phases st')"
proof (induction ls arbitrary: st)
  case Nil
  then show ?case by simp
next
  case (Cons l ls)
  then obtain st1 where s: "step st l = Inr st1" and r: "run_lines st1 ls = Inr st'"
    by (auto split: sum.splits)
  from step_phase_keys [OF s Cons.prems(2)] Cons.IH [OF r] show ?case by blast
qed

lemma parse_checklist_phase_keys:
  assumes "parse_checklist fs path = Inr phs"
  shows "phase_keys phs"
proof -
  from assms obtain content where "parse_lines (readlines content) = Inr phs"
    by (auto simp: parse_checklist_def split: sum.splits)
  then obtain st where st: "run_lines init_state (readlines content) = Inr st"
    and ph: "phases st = phs"
    by (auto simp: parse_lines_Inr)
  have "phase_keys (phases init_state)" by (simp add: init_state_def phase_keys_def)
  from run_lines_phase_keys [OF st this] ph show ?thesis by simp
qed

lemma skipped_None: "skipped None phase = False"
  by (simp add: skipped_def)

lemma skipped_Some:
  "skipped (Some f) phase \<longleftrightarrow> f \<noteq> [] \<and> \<not> prefix (u ''Phase '' @ f) phase"
  by (simp add: skipped_def)

lemma issues_filtered:
  "f \<noteq> [] \<or> phase_keys phs \<Longrightarrow>
   issues_to_create (Some f) phs =
     issues_to_create None (filter (\<lambda>(phase, secs). prefix (u ''Phase '' @ f) phase) phs)"
  by (induction phs) (auto simp: skipped_None skipped_Some phase_keys_def)

lemma get_phase_filter_arg:
  assumes "u ''--phase'' \<notin> set args1"
  shows "get_phase_filter (args1 @ [u ''--phase'', f] @ args2) = Some f"
proof -
  from assms have "takeWhile (\<lambda>y. y \<noteq> u ''--phase'') (args1 @ [u ''--phase'', f] @ args2) = args1"
    by (induction args1) auto
  then have "index_of (u ''--phase'') (args1 @ [u ''--phase'', f] @ args2) = length args1"
    by (simp add: index_of_def)
  then show ?thesis
    by (simp add: get_phase_filter_def Let_def nth_append)
qed

lemma main_filtered:
  assumes "2 \<le> length argv" "u ''--list'' \<notin> set argv" "get_phase_filter argv = Some f"
    and "parse_checklist fs (argv ! 1) = Inr phs"
    and "2 \<le> length argv'" "u ''--list'' \<notin> set argv'" "u ''--phase'' \<notin> set argv'"
    and "u ''--create'' \<in> set argv' \<longleftrightarrow> u ''--create'' \<in> set argv"
    and "parse_checklist fs' (argv' ! 1) =
           Inr (filter (\<lambda>(phase, secs). prefix (u ''Phase '' @ f) phase) phs)"
  shows "main fs gh con argv = main fs' gh con argv'"
proof -
  from parse_checklist_phase_keys [OF assms(4)] have "phase_keys phs" .
  then have i: "issues_to_create (Some f) phs =
      issues_to_create None (filter (\<lambda>(phase, secs). prefix (u ''Phase '' @ f) phase) phs)"
    by (simp add: issues_filtered)
  from assms(7) have n: "get_phase_filter argv' = None"
    by (simp add: get_phase_filter_def)
  from assms(1,2,3,4,5,6,8,9) i n show ?thesis
    by (simp add: main_def Let_def)
qed

text \<open>
  C8. With \<open>--list\<close> on the command line the filter is read and never used: the summary
  has a line for every phase. Here the filter is \<open>3\<close>, the only phase is \<open>Phase 2: X\<close>,
  and the phase and its section are listed with their task counts.
\<close>

theorem phase_filter_counterexample:
  "get_phase_filter [u ''gh_issue_generator.py'', u ''CHECKLIST.md'', u ''--list'', u ''--phase'', u ''3''] = Some (u ''3'') \<and>
   \<not> prefix (u ''Phase '' @ u ''3'') (u ''Phase 2: X'') \<and>
   main (\<lambda>path. Inr (u ''## Phase 2: X'' @ nl @ u ''### S'' @ nl @ u ''- [ ] a'' @ nl))
     (\<lambda>h c. Inl OSError) (\<lambda>h t. None)
     [u ''gh_issue_generator.py'', u ''CHECKLIST.md'', u ''--list'', u ''--phase'', u ''3''] =
     (Returned,
      \<lparr>invoked = [],
       printed = [nl @ u ''=== Implementation Checklist Summary ==='' @ nl,
                  nl @ u ''Phase 2: X (1 tasks)'',
                  u ''  - S: 1 tasks'',
                  nl @ u ''========================================'',
                  u ''Total uncompleted tasks: 1'']\<rparr>)"
proof -
  have p: "parse_checklist (\<lambda>path. Inr (u ''## Phase 2: X'' @ nl @ u ''### S'' @ nl @ u ''- [ ] a'' @ nl))
     ([u ''gh_issue_generator.py'', u ''CHECKLIST.md'', u ''--list'', u ''--phase'', u ''3''] ! 1) = Inr [(u ''Phase 2: X'', [(u ''S'', [u ''a''])])]"
    by (simp add: text_defs match_defs parse_defs)
  have r: "replicate 40 x = [x, x, x, x, x, x, x, x, x, x, x, x, x, x, x, x, x, x, x, x, x, x, x, x, x, x, x, x, x, x, x, x, x, x, x, x, x, x, x, x]" for x :: nat
    by (simp add: numeral_eq_Suc)
  show ?thesis
    using p by (simp add: io_defs u_def nl_def r)
qed

text \<open>
  C8, as amended. In a run without \<open>--list\<close>, on a file that is read and parsed, and with
  \<open>--phase f\<close> on the command line (\<open>f\<close> is the argument after the first \<open>--phase\<close>): the
  filter is a prefix test on the phase label. The run is the run without a filter on a
  checklist whose phases are those with a label that starts with \<open>Phase \<close> followed by \<open>f\<close>:
  the same lines are printed and the same commands run, on every standard output and with
  every tracker. On a standard output that takes every line, the issues listed (and, with
  \<open>--create\<close> and a tracker whose commands run, submitted) are those of the phases with
  such a label, in order. For the labels \<open>Phase 2: X\<close>, \<open>Phase 3: Y\<close>, \<open>Phase 30: Z\<close> and
  the filter \<open>3\<close> the second and the third are processed and the first is not. With
  \<open>--list\<close> every phase is listed, whatever the filter.
\<close>

theorem phase_filter_is_prefix_test:
  "(2 \<le> length argv \<and> get_phase_filter argv = Some f \<and>
    parse_checklist fs (argv ! 1) = Inr phs \<longrightarrow>
      (u ''--list'' \<notin> set argv \<longrightarrow>
         (\<forall>fs' argv'.
            2 \<le> length argv' \<and> u ''--list'' \<notin> set argv' \<and> u ''--phase'' \<notin> set argv' \<and>
            (u ''--create'' \<in> set argv' \<longleftrightarrow> u ''--create'' \<in> set argv) \<and>
            parse_checklist fs' (argv' ! 1) =
              Inr (filter (\<lambda>(phase, secs). prefix (u ''Phase '' @ f) phase) phs) \<longrightarrow>
            main fs gh con argv = main fs' gh con argv')) \<and>
      (u ''--list'' \<notin> set argv \<and> u ''--create'' \<notin> set argv \<and> (\<forall>h t. con h t = None) \<longrightarrow>
         main fs gh con argv =
           (Returned,
            \<lparr>invoked = [],
             printed = found_lines (issues_to_create None (filter (\<lambda>(phase, secs). prefix (u ''Phase '' @ f) phase) phs)) @
                       dry_run_lines\<rparr>)) \<and>
      (u ''--list'' \<notin> set argv \<and> u ''--create'' \<in> set argv \<and> (\<forall>h t. con h t = None) \<and>
       (\<forall>h c. \<exists>r. gh h c = Inr r) \<longrightarrow>
         main fs gh con argv =
           (Returned,
            \<lparr>invoked = map todo_cmd (issues_to_create None (filter (\<lambda>(phase, secs). prefix (u ''Phase '' @ f) phase) phs)),
             printed = found_lines (issues_to_create None (filter (\<lambda>(phase, secs). prefix (u ''Phase '' @ f) phase) phs)) @
                       [creating_line (issues_to_create None (filter (\<lambda>(phase, secs). prefix (u ''Phase '' @ f) phase) phs))] @
                       reports gh [] (issues_to_create None (filter (\<lambda>(phase, secs). prefix (u ''Phase '' @ f) phase) phs))\<rparr>)) \<and>
      (u ''--list'' \<in> set argv \<and> (\<forall>h t. con h t = None) \<longrightarrow>
         main fs gh con argv = (Returned, \<lparr>invoked = [], printed = summary phs\<rparr>)) \<and>
      (\<forall>(phase, secs) \<in> set phs. skipped (Some f) phase \<longleftrightarrow> \<not> prefix (u ''Phase '' @ f) phase)) \<and>
   (g \<noteq> [] \<longrightarrow> (skipped (Some g) phase \<longleftrightarrow> \<not> prefix (u ''Phase '' @ g) phase)) \<and>
   (u ''--phase'' \<notin> set args1 \<longrightarrow> get_phase_filter (args1 @ [u ''--phase'', g] @ args2) = Some g) \<and>
   issues_to_create (Some (u ''3''))
       [(u ''Phase 2: X'', s2), (u ''Phase 3: Y'', s3), (u ''Phase 30: Z'', s30)] =
     section_issues (u ''Phase 3: Y'') s3 @ section_issues (u ''Phase 30: Z'') s30"
proof (intro conjI impI allI)
  fix fs' argv'
  assume a: "2 \<le> length argv \<and> get_phase_filter argv = Some f \<and>
    parse_checklist fs (argv ! 1) = Inr phs" and l: "u ''--list'' \<notin> set argv"
    and b: "2 \<le> length argv' \<and> u ''--list'' \<notin> set argv' \<and> u ''--phase'' \<notin> set argv' \<and>
            (u ''--create'' \<in> set argv' \<longleftrightarrow> u ''--create'' \<in> set argv) \<and>
            parse_checklist fs' (argv' ! 1) =
              Inr (filter (\<lambda>(phase, secs). prefix (u ''Phase '' @ f) phase) phs)"
  show "main fs gh con argv = main fs' gh con argv'"
    by (rule main_filtered [where f = f and phs = phs]) (use a l b in simp_all)
next
  assume a: "2 \<le> length argv \<and> get_phase_filter argv = Some f \<and>
    parse_checklist fs (argv ! 1) = Inr phs"
    and b: "u ''--list'' \<notin> set argv \<and> u ''--create'' \<notin> set argv \<and> (\<forall>h t. con h t = None)"
  from a parse_checklist_phase_keys have "phase_keys phs" by blast
  then have i: "issues_to_create (Some f) phs =
      issues_to_create None (filter (\<lambda>(phase, secs). prefix (u ''Phase '' @ f) phase) phs)"
    by (simp add: issues_filtered)
  from a b main_dry_run [where argv = argv and fs = fs and phs = phs and con = con and gh = gh] i
  show "main fs gh con argv =
           (Returned,
            \<lparr>invoked = [],
             printed = found_lines (issues_to_create None (filter (\<lambda>(phase, secs). prefix (u ''Phase '' @ f) phase) phs)) @
                       dry_run_lines\<rparr>)"
    by simp
next
  assume a: "2 \<le> length argv \<and> get_phase_filter argv = Some f \<and>
    parse_checklist fs (argv ! 1) = Inr phs"
    and b: "u ''--list'' \<notin> set argv \<and> u ''--create'' \<in> set argv \<and> (\<forall>h t. con h t = None) \<and>
       (\<forall>h c. \<exists>r. gh h c = Inr r)"
  from a parse_checklist_phase_keys have "phase_keys phs" by blast
  then have i: "issues_to_create (Some f) phs =
      issues_to_create None (filter (\<lambda>(phase, secs). prefix (u ''Phase '' @ f) phase) phs)"
    by (simp add: issues_filtered)
  from a b main_create [where argv = argv and fs = fs and phs = phs and con = con and gh = gh] i
  show "main fs gh con argv =
           (Returned,
            \<lparr>invoked = map todo_cmd (issues_to_create None (filter (\<lambda>(phase, secs). prefix (u ''Phase '' @ f) phase) phs)),
             printed = found_lines (issues_to_create None (filter (\<lambda>(phase, secs). prefix (u ''Phase '' @ f) phase) phs)) @
                       [creating_line (issues_to_create None (filter (\<lambda>(phase, secs). prefix (u ''Phase '' @ f) phase) phs))] @
                       reports gh [] (issues_to_create None (filter (\<lambda>(phase, secs). prefix (u ''Phase '' @ f) phase) phs))\<rparr>)"
    by simp
next
  assume a: "2 \<le> length argv \<and> get_phase_filter argv = Some f \<and>
    parse_checklist fs (argv ! 1) = Inr phs"
    and b: "u ''--list'' \<in> set argv \<and> (\<forall>h t. con h t = None)"
  from a b main_list [where argv = argv and fs = fs and phs = phs and con = con and gh = gh]
  show "main fs gh con argv = (Returned, \<lparr>invoked = [], printed = summary phs\<rparr>)"
    by simp
next
  assume a: "2 \<le> length argv \<and> get_phase_filter argv = Some f \<and>
    parse_checklist fs (argv ! 1) = Inr phs"
  from a parse_checklist_phase_keys have "phase_keys phs" by blast
  then show "\<forall>(phase, secs) \<in> set phs. skipped (Some f) phase \<longleftrightarrow> \<not> prefix (u ''Phase '' @ f) phase"
    by (auto simp: skipped_Some phase_keys_def list_all_iff)
next
  assume "g \<noteq> []"
  then show "skipped (Some g) phase \<longleftrightarrow> \<not> prefix (u ''Phase '' @ g) phase"
    by (simp add: skipped_Some)
next
  assume "u ''--phase'' \<notin> set args1"
  then show "get_phase_filter (args1 @ [u ''--phase'', g] @ args2) = Some g"
    by (rule get_phase_filter_arg)
next
  show "issues_to_create (Some (u ''3''))
       [(u ''Phase 2: X'', s2), (u ''Phase 3: Y'', s3), (u ''Phase 30: Z'', s30)] =
     section_issues (u ''Phase 3: Y'') s3 @ section_issues (u ''Phase 30: Z'') s30"
    by (simp add: skipped_Some u_def)
qed

theorem phase_filter_is_prefix_test_witness:
  "get_phase_filter [u ''gh_issue_generator.py'', u ''CHECKLIST.md'', u ''--phase'', u ''3''] = Some (u ''3'') \<and>
   parse_checklist
     (\<lambda>path. Inr (u ''## Phase 2: X'' @ nl @ u ''### S'' @ nl @ u ''- [ ] a'' @ nl @
                  u ''## Phase 3: Y'' @ nl @ u ''### S'' @ nl @ u ''- [ ] b'' @ nl @
                  u ''## Phase 30: Z'' @ nl @ u ''### S'' @ nl @ u ''- [ ] c'' @ nl))
     (u ''CHECKLIST.md'') =
     Inr [(u ''Phase 2: X'', [(u ''S'', [u ''a''])]), (u ''Phase 3: Y'', [(u ''S'', [u ''b''])]),
      (u ''Phase 30: Z'', [(u ''S'', [u ''c''])])] \<and>
   filter (\<lambda>(phase, secs). prefix (u ''Phase '' @ u ''3'') phase)
     [(u ''Phase 2: X'', [(u ''S'', [u ''a''])]), (u ''Phase 3: Y'', [(u ''S'', [u ''b''])]),
      (u ''Phase 30: Z'', [(u ''S'', [u ''c''])])] =
     [(u ''Phase 3: Y'', [(u ''S'', [u ''b''])]), (u ''Phase 30: Z'', [(u ''S'', [u ''c''])])] \<and>
   main
     (\<lambda>path. Inr (u ''## Phase 2: X'' @ nl @ u ''### S'' @ nl @ u ''- [ ] a'' @ nl @
                  u ''## Phase 3: Y'' @ nl @ u ''### S'' @ nl @ u ''- [ ] b'' @ nl @
                  u ''## Phase 30: Z'' @ nl @ u ''### S'' @ nl @ u ''- [ ] c'' @ nl))
     (\<lambda>h c. Inl OSError) (\<lambda>h t. None)
     [u ''gh_issue_generator.py'', u ''CHECKLIST.md'', u ''--phase'', u ''3''] =
     (Returned,
      \<lparr>invoked = [],
       printed = [nl @ u ''=== GitHub Issue Generator ==='' @ nl,
                  u ''Found 2 potential issues to create:'' @ nl,
                  u ''1. [Phase 3] S'',
                  u ''2. [Phase 30] S'',
                  nl @ u ''Run with --create flag to actually create these issues on GitHub.'',
                  u ''Example: python gh_issue_generator.py IMPLEMENTATION_CHECKLIST.md --create'']\<rparr>) \<and>
   map (\<lambda>cmd. cmd ! 4) (invoked (snd (main
     (\<lambda>path. Inr (u ''## Phase 2: X'' @ nl @ u ''### S'' @ nl @ u ''- [ ] a'' @ nl @
                  u ''## Phase 3: Y'' @ nl @ u ''### S'' @ nl @ u ''- [ ] b'' @ nl @
                  u ''## Phase 30: Z'' @ nl @ u ''### S'' @ nl @ u ''- [ ] c'' @ nl))
     (\<lambda>h c. Inr \<lparr>returncode = 1, stdout = [], stderr = u ''no network''\<rparr>) (\<lambda>h t. None)
     [u ''gh_issue_generator.py'', u ''CHECKLIST.md'', u ''--create'', u ''--phase'', u ''3'']))) =
     [u ''[Phase 3] S'', u ''[Phase 30] S''] \<and>
   parse_checklist
     (\<lambda>path. Inr (u ''## Phase 3: Y'' @ nl @ u ''### S'' @ nl @ u ''- [ ] b'' @ nl @
                  u ''## Phase 30: Z'' @ nl @ u ''### S'' @ nl @ u ''- [ ] c'' @ nl))
     (u ''PART.md'') =
     Inr [(u ''Phase 3: Y'', [(u ''S'', [u ''b''])]), (u ''Phase 30: Z'', [(u ''S'', [u ''c''])])] \<and>
   main
     (\<lambda>path. Inr (u ''## Phase 2: X'' @ nl @ u ''### S'' @ nl @ u ''- [ ] a'' @ nl @
                  u ''## Phase 3: Y'' @ nl @ u ''### S'' @ nl @ u ''- [ ] b'' @ nl @
                  u ''## Phase 30: Z'' @ nl @ u ''### S'' @ nl @ u ''- [ ] c'' @ nl))
     (\<lambda>h c. Inr \<lparr>returncode = 1, stdout = [], stderr = u ''no network''\<rparr>)
     (\<lambda>h t. if list_all (\<lambda>c. c < 128) t then None else Some UnicodeEncodeError)
     [u ''gh_issue_generator.py'', u ''CHECKLIST.md'', u ''--create'', u ''--phase'', u ''3''] =
   main
     (\<lambda>path. Inr (u ''## Phase 3: Y'' @ nl @ u ''### S'' @ nl @ u ''- [ ] b'' @ nl @
                  u ''## Phase 30: Z'' @ nl @ u ''### S'' @ nl @ u ''- [ ] c'' @ nl))
     (\<lambda>h c. Inr \<lparr>returncode = 1, stdout = [], stderr = u ''no network''\<rparr>)
     (\<lambda>h t. if list_all (\<lambda>c. c < 128) t then None else Some UnicodeEncodeError)
     [u ''gh_issue_generator.py'', u ''PART.md'', u ''--create''] \<and>
   main
     (\<lambda>path. Inr (u ''## Phase 2: X'' @ nl @ u ''### S'' @ nl @ u ''- [ ] a'' @ nl @
                  u ''## Phase 3: Y'' @ nl @ u ''### S'' @ nl @ u ''- [ ] b'' @ nl @
                  u ''## Phase 30: Z'' @ nl @ u ''### S'' @ nl @ u ''- [ ] c'' @ nl))
     (\<lambda>h c. Inl OSError) (\<lambda>h t. None)
     [u ''gh_issue_generator.py'', u ''CHECKLIST.md'', u ''--list'', u ''--phase'', u ''3''] =
     (Returned, \<lparr>invoked = [], printed = summary [(u ''Phase 2: X'', [(u ''S'', [u ''a''])]), (u ''Phase 3: Y'', [(u ''S'', [u ''b''])]),
      (u ''Phase 30: Z'', [(u ''S'', [u ''c''])])]\<rparr>) \<and>
   skipped (Some (u ''3'')) (u ''Phase 2: X'') \<and>
   \<not> skipped (Some (u ''3'')) (u ''Phase 3: Y'') \<and>
   \<not> skipped (Some (u ''3'')) (u ''Phase 30: Z'') \<and>
   get_phase_filter ([u ''gh_issue_generator.py'', u ''CHECKLIST.md''] @ [u ''--phase'', u ''3''] @ [u ''--create'']) = Some (u ''3'')"
proof -
  have p3: "parse_checklist
     (\<lambda>path. Inr (u ''## Phase 2: X'' @ nl @ u ''### S'' @ nl @ u ''- [ ] a'' @ nl @
                  u ''## Phase 3: Y'' @ nl @ u ''### S'' @ nl @ u ''- [ ] b'' @ nl @
                  u ''## Phase 30: Z'' @ nl @ u ''### S'' @ nl @ u ''- [ ] c'' @ nl))
     (u ''CHECKLIST.md'') =
     Inr [(u ''Phase 2: X'', [(u ''S'', [u ''a''])]), (u ''Phase 3: Y'', [(u ''S'', [u ''b''])]),
      (u ''Phase 30: Z'', [(u ''S'', [u ''c''])])]"
    by (simp add: text_defs match_defs parse_defs)
  have p2: "parse_checklist
     (\<lambda>path. Inr (u ''## Phase 3: Y'' @ nl @ u ''### S'' @ nl @ u ''- [ ] b'' @ nl @
                  u ''## Phase 30: Z'' @ nl @ u ''### S'' @ nl @ u ''- [ ] c'' @ nl))
     (u ''PART.md'') =
     Inr [(u ''Phase 3: Y'', [(u ''S'', [u ''b''])]), (u ''Phase 30: Z'', [(u ''S'', [u ''c''])])]"
    by (simp add: text_defs match_defs parse_defs)
  have fl: "filter (\<lambda>(phase, secs). prefix (u ''Phase '' @ u ''3'') phase)
     [(u ''Phase 2: X'', [(u ''S'', [u ''a''])]), (u ''Phase 3: Y'', [(u ''S'', [u ''b''])]),
      (u ''Phase 30: Z'', [(u ''S'', [u ''c''])])] =
     [(u ''Phase 3: Y'', [(u ''S'', [u ''b''])]), (u ''Phase 30: Z'', [(u ''S'', [u ''c''])])]"
    by (simp add: u_def)
  have gd: "get_phase_filter [u ''gh_issue_generator.py'', u ''CHECKLIST.md'', u ''--phase'', u ''3''] = Some (u ''3'')"
    and gc: "get_phase_filter [u ''gh_issue_generator.py'', u ''CHECKLIST.md'', u ''--create'', u ''--phase'', u ''3''] = Some (u ''3'')"
    and gl: "get_phase_filter [u ''gh_issue_generator.py'', u ''CHECKLIST.md'', u ''--list'', u ''--phase'', u ''3''] = Some (u ''3'')"
    by (simp_all add: get_phase_filter_def index_of_def Let_def u_def)
  have todo: "issues_to_create None [(u ''Phase 3: Y'', [(u ''S'', [u ''b''])]), (u ''Phase 30: Z'', [(u ''S'', [u ''c''])])] =
     [(u ''[Phase 3] S'', snd (generate_issue_content (u ''Phase 3: Y'') (u ''S'') [u ''b'']), u ''Phase 3: Y''),
      (u ''[Phase 30] S'', snd (generate_issue_content (u ''Phase 30: Z'') (u ''S'') [u ''c'']), u ''Phase 30: Z'')]"
    by (simp add: skipped_None generate_issue_content_def issue_title_def split_char_first u_def)
  have dry: "main
     (\<lambda>path. Inr (u ''## Phase 2: X'' @ nl @ u ''### S'' @ nl @ u ''- [ ] a'' @ nl @
                  u ''## Phase 3: Y'' @ nl @ u ''### S'' @ nl @ u ''- [ ] b'' @ nl @
                  u ''## Phase 30: Z'' @ nl @ u ''### S'' @ nl @ u ''- [ ] c'' @ nl))
     (\<lambda>h c. Inl OSError) (\<lambda>h t. None)
     [u ''gh_issue_generator.py'', u ''CHECKLIST.md'', u ''--phase'', u ''3''] =
     (Returned,
      \<lparr>invoked = [],
       printed = found_lines (issues_to_create None [(u ''Phase 3: Y'', [(u ''S'', [u ''b''])]), (u ''Phase 30: Z'', [(u ''S'', [u ''c''])])]) @ dry_run_lines\<rparr>)"
    using phase_filter_is_prefix_test [where argv = "[u ''gh_issue_generator.py'', u ''CHECKLIST.md'', u ''--phase'', u ''3'']"
        and fs = "(\<lambda>path. Inr (u ''## Phase 2: X'' @ nl @ u ''### S'' @ nl @ u ''- [ ] a'' @ nl @
                  u ''## Phase 3: Y'' @ nl @ u ''### S'' @ nl @ u ''- [ ] b'' @ nl @
                  u ''## Phase 30: Z'' @ nl @ u ''### S'' @ nl @ u ''- [ ] c'' @ nl))"
        and f = "u ''3''" and con = "\<lambda>h t. None" and gh = "\<lambda>h c. Inl OSError"
        and phs = "[(u ''Phase 2: X'', [(u ''S'', [u ''a''])]), (u ''Phase 3: Y'', [(u ''S'', [u ''b''])]),
      (u ''Phase 30: Z'', [(u ''S'', [u ''c''])])]"] p3 gd fl
    by (simp add: u_def)
  have cre: "main
     (\<lambda>path. Inr (u ''## Phase 2: X'' @ nl @ u ''### S'' @ nl @ u ''- [ ] a'' @ nl @
                  u ''## Phase 3: Y'' @ nl @ u ''### S'' @ nl @ u ''- [ ] b'' @ nl @
                  u ''## Phase 30: Z'' @ nl @ u ''### S'' @ nl @ u ''- [ ] c'' @ nl))
     (\<lambda>h c. Inr \<lparr>returncode = 1, stdout = [], stderr = u ''no network''\<rparr>) (\<lambda>h t. None)
     [u ''gh_issue_generator.py'', u ''CHECKLIST.md'', u ''--create'', u ''--phase'', u ''3''] =
     (Returned,
      \<lparr>invoked = map todo_cmd (issues_to_create None [(u ''Phase 3: Y'', [(u ''S'', [u ''b''])]), (u ''Phase 30: Z'', [(u ''S'', [u ''c''])])]),
       printed = found_lines (issues_to_create None [(u ''Phase 3: Y'', [(u ''S'', [u ''b''])]), (u ''Phase 30: Z'', [(u ''S'', [u ''c''])])]) @
                 [creating_line (issues_to_create None [(u ''Phase 3: Y'', [(u ''S'', [u ''b''])]), (u ''Phase 30: Z'', [(u ''S'', [u ''c''])])])] @
                 reports (\<lambda>h c. Inr \<lparr>returncode = 1, stdout = [], stderr = u ''no network''\<rparr>) [] (issues_to_create None [(u ''Phase 3: Y'', [(u ''S'', [u ''b''])]), (u ''Phase 30: Z'', [(u ''S'', [u ''c''])])])\<rparr>)"
    using phase_filter_is_prefix_test [where argv = "[u ''gh_issue_generator.py'', u ''CHECKLIST.md'', u ''--create'', u ''--phase'', u ''3'']"
        and fs = "(\<lambda>path. Inr (u ''## Phase 2: X'' @ nl @ u ''### S'' @ nl @ u ''- [ ] a'' @ nl @
                  u ''## Phase 3: Y'' @ nl @ u ''### S'' @ nl @ u ''- [ ] b'' @ nl @
                  u ''## Phase 30: Z'' @ nl @ u ''### S'' @ nl @ u ''- [ ] c'' @ nl))"
        and f = "u ''3''" and con = "\<lambda>h t. None"
        and gh = "(\<lambda>h c. Inr \<lparr>returncode = 1, stdout = [], stderr = u ''no network''\<rparr>)"
        and phs = "[(u ''Phase 2: X'', [(u ''S'', [u ''a''])]), (u ''Phase 3: Y'', [(u ''S'', [u ''b''])]),
      (u ''Phase 30: Z'', [(u ''S'', [u ''c''])])]"] p3 gc fl
    by (simp add: u_def)
  have same: "main
     (\<lambda>path. Inr (u ''## Phase 2: X'' @ nl @ u ''### S'' @ nl @ u ''- [ ] a'' @ nl @
                  u ''## Phase 3: Y'' @ nl @ u ''### S'' @ nl @ u ''- [ ] b'' @ nl @
                  u ''## Phase 30: Z'' @ nl @ u ''### S'' @ nl @ u ''- [ ] c'' @ nl))
     (\<lambda>h c. Inr \<lparr>returncode = 1, stdout = [], stderr = u ''no network''\<rparr>)
     (\<lambda>h t. if list_all (\<lambda>c. c < 128) t then None else Some UnicodeEncodeError)
     [u ''gh_issue_generator.py'', u ''CHECKLIST.md'', u ''--create'', u ''--phase'', u ''3''] =
   main
     (\<lambda>path. Inr (u ''## Phase 3: Y'' @ nl @ u ''### S'' @ nl @ u ''- [ ] b'' @ nl @
                  u ''## Phase 30: Z'' @ nl @ u ''### S'' @ nl @ u ''- [ ] c'' @ nl))
     (\<lambda>h c. Inr \<lparr>returncode = 1, stdout = [], stderr = u ''no network''\<rparr>)
     (\<lambda>h t. if list_all (\<lambda>c. c < 128) t then None else Some UnicodeEncodeError)
     [u ''gh_issue_generator.py'', u ''PART.md'', u ''--create'']"
    using phase_filter_is_prefix_test [where argv = "[u ''gh_issue_generator.py'', u ''CHECKLIST.md'', u ''--create'', u ''--phase'', u ''3'']"
        and fs = "(\<lambda>path. Inr (u ''## Phase 2: X'' @ nl @ u ''### S'' @ nl @ u ''- [ ] a'' @ nl @
                  u ''## Phase 3: Y'' @ nl @ u ''### S'' @ nl @ u ''- [ ] b'' @ nl @
                  u ''## Phase 30: Z'' @ nl @ u ''### S'' @ nl @ u ''- [ ] c'' @ nl))"
        and f = "u ''3''"
        and con = "(\<lambda>h t. if list_all (\<lambda>c. c < 128) t then None else Some UnicodeEncodeError)"
        and gh = "(\<lambda>h c. Inr \<lparr>returncode = 1, stdout = [], stderr = u ''no network''\<rparr>)"
        and phs = "[(u ''Phase 2: X'', [(u ''S'', [u ''a''])]), (u ''Phase 3: Y'', [(u ''S'', [u ''b''])]),
      (u ''Phase 30: Z'', [(u ''S'', [u ''c''])])]"] p3 p2 gc fl
    by (simp add: u_def)
  have lst: "main
     (\<lambda>path. Inr (u ''## Phase 2: X'' @ nl @ u ''### S'' @ nl @ u ''- [ ] a'' @ nl @
                  u ''## Phase 3: Y'' @ nl @ u ''### S'' @ nl @ u ''- [ ] b'' @ nl @
                  u ''## Phase 30: Z'' @ nl @ u ''### S'' @ nl @ u ''- [ ] c'' @ nl))
     (\<lambda>h c. Inl OSError) (\<lambda>h t. None)
     [u ''gh_issue_generator.py'', u ''CHECKLIST.md'', u ''--list'', u ''--phase'', u ''3''] =
     (Returned, \<lparr>invoked = [], printed = summary [(u ''Phase 2: X'', [(u ''S'', [u ''a''])]), (u ''Phase 3: Y'', [(u ''S'', [u ''b''])]),
      (u ''Phase 30: Z'', [(u ''S'', [u ''c''])])]\<rparr>)"
    using phase_filter_is_prefix_test [where argv = "[u ''gh_issue_generator.py'', u ''CHECKLIST.md'', u ''--list'', u ''--phase'', u ''3'']"
        and fs = "(\<lambda>path. Inr (u ''## Phase 2: X'' @ nl @ u ''### S'' @ nl @ u ''- [ ] a'' @ nl @
                  u ''## Phase 3: Y'' @ nl @ u ''### S'' @ nl @ u ''- [ ] b'' @ nl @
                  u ''## Phase 30: Z'' @ nl @ u ''### S'' @ nl @ u ''- [ ] c'' @ nl))"
        and f = "u ''3''" and con = "\<lambda>h t. None" and gh = "\<lambda>h c. Inl OSError"
        and phs = "[(u ''Phase 2: X'', [(u ''S'', [u ''a''])]), (u ''Phase 3: Y'', [(u ''S'', [u ''b''])]),
      (u ''Phase 30: Z'', [(u ''S'', [u ''c''])])]"] p3 gl
    by (simp add: u_def)
  have sk: "skipped (Some (u ''3'')) (u ''Phase 2: X'')"
    "\<not> skipped (Some (u ''3'')) (u ''Phase 3: Y'')"
    "\<not> skipped (Some (u ''3'')) (u ''Phase 30: Z'')"
    using phase_filter_is_prefix_test [where g = "u ''3''" and phase = "u ''Phase 2: X''"]
      phase_filter_is_prefix_test [where g = "u ''3''" and phase = "u ''Phase 3: Y''"]
      phase_filter_is_prefix_test [where g = "u ''3''" and phase = "u ''Phase 30: Z''"]
    by (simp_all add: u_def)
  have ga: "get_phase_filter ([u ''gh_issue_generator.py'', u ''CHECKLIST.md''] @ [u ''--phase'', u ''3''] @ [u ''--create'']) = Some (u ''3'')"
    using phase_filter_is_prefix_test [where g = "u ''3''" and ?args2.0 = "[u ''--create'']"
        and ?args1.0 = "[u ''gh_issue_generator.py'', u ''CHECKLIST.md'']"]
    by (simp add: u_def)
  have dry': "main
     (\<lambda>path. Inr (u ''## Phase 2: X'' @ nl @ u ''### S'' @ nl @ u ''- [ ] a'' @ nl @
                  u ''## Phase 3: Y'' @ nl @ u ''### S'' @ nl @ u ''- [ ] b'' @ nl @
                  u ''## Phase 30: Z'' @ nl @ u ''### S'' @ nl @ u ''- [ ] c'' @ nl))
     (\<lambda>h c. Inl OSError) (\<lambda>h t. None)
     [u ''gh_issue_generator.py'', u ''CHECKLIST.md'', u ''--phase'', u ''3''] =
     (Returned,
      \<lparr>invoked = [],
       printed = [nl @ u ''=== GitHub Issue Generator ==='' @ nl,
                  u ''Found 2 potential issues to create:'' @ nl,
                  u ''1. [Phase 3] S'',
                  u ''2. [Phase 30] S'',
                  nl @ u ''Run with --create flag to actually create these issues on GitHub.'',
                  u ''Example: python gh_issue_generator.py IMPLEMENTATION_CHECKLIST.md --create'']\<rparr>)"
    unfolding dry todo
    by (simp add: found_lines_def dry_run_lines_def str_nat.simps u_def nl_def)
  have cre': "map (\<lambda>cmd. cmd ! 4) (invoked (snd (main
     (\<lambda>path. Inr (u ''## Phase 2: X'' @ nl @ u ''### S'' @ nl @ u ''- [ ] a'' @ nl @
                  u ''## Phase 3: Y'' @ nl @ u ''### S'' @ nl @ u ''- [ ] b'' @ nl @
                  u ''## Phase 30: Z'' @ nl @ u ''### S'' @ nl @ u ''- [ ] c'' @ nl))
     (\<lambda>h c. Inr \<lparr>returncode = 1, stdout = [], stderr = u ''no network''\<rparr>) (\<lambda>h t. None)
     [u ''gh_issue_generator.py'', u ''CHECKLIST.md'', u ''--create'', u ''--phase'', u ''3'']))) =
     [u ''[Phase 3] S'', u ''[Phase 30] S'']"
    unfolding cre todo
    by (simp add: todo_cmd_def issue_cmd_def)
  from gd p3 fl dry' cre' p2 same lst sk ga show ?thesis by simp
qed

end
